theory Spec2Isabelle
  imports Main "HOL-Library.AList"
begin

section \<open>Hive: the minion registry, the dependency scheduler and the mailbox\<close>

text \<open>
  The development embeds the \<^verbatim>\<open>Hive\<close> class of \<^verbatim>\<open>src/index.js\<close> (the version that has
  \<^verbatim>\<open>spawnWaiting\<close>, \<^verbatim>\<open>start\<close> and \<^verbatim>\<open>checkAndStartDependents\<close>).

  \<^item> The directory \<^verbatim>\<open>minionsDir\<close> is an association list from directory names to the
    files of one minion; \<^verbatim>\<open>networkDir\<close> is an association list from minion names to
    inbox directories, each an association list from file names to parsed messages.
    The order of an association list means nothing: \<^verbatim>\<open>fs.readdirSync\<close> lists a
    directory sorted by name.
  \<^item> \<^verbatim>\<open>path.join(minionsDir, p)\<close> is resolved for the string \<open>p\<close> a worker depends on,
    which the class never validates. The other operations are modelled for names that
    are one path segment.
  \<^item> A JavaScript string is a \<^typ>\<open>string\<close>: a list of code units below 256.
    \<^verbatim>\<open>undefined\<close> and \<^verbatim>\<open>null\<close> are \<^term>\<open>None\<close>.
  \<^item> Everything outside the process is an oracle of the record \<open>env\<close>: the outcome of
    each docker command (\<^term>\<open>None\<close> when \<^verbatim>\<open>execSync\<close> throws), the wall clock, the
    high-resolution timer, the random suffix, and the files that a path reaches outside
    the modelled tree.
  \<^item> A \<^verbatim>\<open>throw\<close> is \<^term>\<open>Inl\<close> of an \<open>error\<close>; every operation returns its result
    together with the file system it leaves behind, since a throw after a write keeps
    the write.
\<close>

subsection \<open>Data\<close>

text \<open>The object stored in \<^verbatim>\<open>meta.json\<close>; the keys are those the class writes.\<close>

record meta =
  name :: string
  createdAt :: string
  task :: string
  status :: string
  containerId :: "string option"
  dependsOn :: "string option"
  memory :: "string option"
  cpus :: "string option"
  startedAt :: "string option"
  killedAt :: "string option"
  pausedAt :: "string option"
  resumedAt :: "string option"
  restartedAt :: "string option"
  retriedAt :: "string option"
  retryOf :: "string option"
  renamedFrom :: "string option"
  renamedAt :: "string option"
  clonedFrom :: "string option"
  clonedAt :: "string option"

text \<open>
  One minion directory: \<^verbatim>\<open>meta.json\<close>, \<^verbatim>\<open>TASK.md\<close>, \<^verbatim>\<open>STATUS\<close> and
  \<^verbatim>\<open>output/claude-output.log\<close>, each present or not.
\<close>

record minion_dir =
  meta_json :: "meta option"
  TASK_md :: "string option"
  STATUS :: "string option"
  output_log :: "string option"

record message =
  msg_id :: string
  msg_from :: string
  msg_to :: string
  msg_body :: string
  msg_timestamp :: string

record hive =
  minions :: "(string \<times> minion_dir) list"
  network :: "(string \<times> (string \<times> message) list) list"

datatype docker_cmd =
    ImageInspect
  | Build
  | Run string "string list" "string list"
  | Stop string
  | Rm string
  | RmForce string
  | Restart string
  | Pause string
  | Unpause string
  | Inspect string
  | Logs string

record env =
  docker :: "docker_cmd \<Rightarrow> string option"
  now :: string
  hrtime :: int
  rand :: string
  elsewhere_exists :: "string \<Rightarrow> bool"
  elsewhere_STATUS :: "string \<Rightarrow> string option"

record options =
  claudeToken :: "string option"
  keepAlive :: bool
  o_memory :: "string option"
  o_cpus :: "string option"

record clone_options =
  co_workspace :: bool
  co_inbox :: bool

datatype error =
    NameRequired
  | NameTooLong
  | NameInvalid
  | AlreadyExists
  | NotFound
  | DependencyNotFound
  | InvalidTransition
  | MissingTask
  | NoContainer
  | RunningConflict
  | SenderNotFound
  | RecipientNotFound
  | DockerError
  | FsError

text \<open>The three messages \<^verbatim>\<open>_validateName\<close> throws are the spec's \<open>InvalidName\<close>.\<close>

definition InvalidName :: "error \<Rightarrow> bool" where
  "InvalidName e = (e = NameRequired \<or> e = NameTooLong \<or> e = NameInvalid)"

subsection \<open>JavaScript helpers\<close>

text \<open>Truthiness of a value that is a string or \<^verbatim>\<open>undefined\<close>/\<^verbatim>\<open>null\<close>.\<close>

definition truthy :: "string option \<Rightarrow> bool" where
  "truthy x = (case x of None \<Rightarrow> False | Some v \<Rightarrow> v \<noteq> [])"

text \<open>\<^verbatim>\<open>a || b\<close> on such values.\<close>

definition js_or :: "string option \<Rightarrow> string option \<Rightarrow> string option" where
  "js_or a b = (if truthy a then a else b)"

text \<open>
  The white space \<^verbatim>\<open>String.prototype.trim\<close> strips, among the code units below 256:
  tab, line feed, vertical tab, form feed, carriage return, space and no-break space.
\<close>

definition ws :: "char \<Rightarrow> bool" where
  "ws c = (of_char c \<in> {9, 10, 11, 12, 13, 32, 160 :: nat})"

definition trim :: "string \<Rightarrow> string" where
  "trim s = rev (dropWhile ws (rev (dropWhile ws s)))"

definition endsWith :: "string \<Rightarrow> string \<Rightarrow> bool" where
  "endsWith suffix s = (length suffix \<le> length s \<and> drop (length s - length suffix) s = suffix)"

text \<open>The order of strings by their code units.\<close>

fun str_less :: "string \<Rightarrow> string \<Rightarrow> bool" where
  "str_less [] [] = False"
| "str_less [] (y # ys) = True"
| "str_less (x # xs) [] = False"
| "str_less (x # xs) (y # ys) =
     ((of_char x :: nat) < of_char y \<or> (x = y \<and> str_less xs ys))"

subsection \<open>Name validation\<close>

definition alnum :: "char \<Rightarrow> bool" where
  "alnum c = (c \<in> set ''abcdefghijklmnopqrstuvwxyzABCDEFGHIJKLMNOPQRSTUVWXYZ0123456789'')"

definition name_char :: "char \<Rightarrow> bool" where
  "name_char c = (alnum c \<or> c = CHR ''_'' \<or> c = CHR ''.'' \<or> c = CHR ''-'')"

text \<open>\<^verbatim>\<open>/^[a-zA-Z0-9][a-zA-Z0-9_.-]*$/.test(name)\<close>\<close>

fun name_regex :: "string \<Rightarrow> bool" where
  "name_regex [] = False"
| "name_regex (c # cs) = (alnum c \<and> list_all name_char cs)"

definition validateName :: "string \<Rightarrow> error option" where
  "validateName n =
     (if n = [] then Some NameRequired
      else if length n > 128 then Some NameTooLong
      else if \<not> name_regex n then Some NameInvalid
      else None)"

subsection \<open>File system access\<close>

definition minionDir :: "hive \<Rightarrow> string \<Rightarrow> minion_dir option" where
  "minionDir s n = map_of (minions s) n"

definition existsDir :: "hive \<Rightarrow> string \<Rightarrow> bool" where
  "existsDir s n = (minionDir s n \<noteq> None)"

definition writeDir :: "string \<Rightarrow> minion_dir \<Rightarrow> hive \<Rightarrow> hive" where
  "writeDir n d s = s\<lparr>minions := AList.update n d (minions s)\<rparr>"

definition writeMeta :: "string \<Rightarrow> meta \<Rightarrow> hive \<Rightarrow> hive" where
  "writeMeta n m s =
     (case minionDir s n of
        None \<Rightarrow> s
      | Some d \<Rightarrow> writeDir n (d\<lparr>meta_json := Some m\<rparr>) s)"

text \<open>
  \<^verbatim>\<open>fs.readdirSync\<close>: the entries of a directory, sorted by name (libuv scans a
  directory with a comparison of the names as byte strings).
\<close>

fun insert_entry :: "string \<times> 'a \<Rightarrow> (string \<times> 'a) list \<Rightarrow> (string \<times> 'a) list" where
  "insert_entry p [] = [p]"
| "insert_entry p (q # qs) =
     (if str_less (fst q) (fst p) then q # insert_entry p qs else p # q # qs)"

fun readdirSync :: "(string \<times> 'a) list \<Rightarrow> (string \<times> 'a) list" where
  "readdirSync [] = []"
| "readdirSync (p # ps) = insert_entry p (readdirSync ps)"

subsection \<open>Paths below the minions directory\<close>

text \<open>
  \<^verbatim>\<open>path.join(minionsDir, p)\<close> normalises the path: it is cut at every slash, empty
  segments and \<^verbatim>\<open>.\<close> are dropped, and \<^verbatim>\<open>..\<close> removes the segment before it. What
  is left names the minions directory itself, one minion directory, or something else:
  a place inside a workspace, or a path that climbs out of the minions directory (also
  one that comes back into it). The model does not hold these places: \<open>env\<close> answers
  for them, with any answer.
\<close>

fun splitSlash :: "string \<Rightarrow> string list" where
  "splitSlash [] = [[]]"
| "splitSlash (c # cs) =
     (if c = CHR ''/'' then [] # splitSlash cs
      else (case splitSlash cs of [] \<Rightarrow> [[c]] | seg # segs \<Rightarrow> (c # seg) # segs))"

fun walk :: "string list \<Rightarrow> string list \<Rightarrow> string list option" where
  "walk stack [] = Some stack"
| "walk stack (seg # segs) =
     (if seg = [] \<or> seg = ''.'' then walk stack segs
      else if seg = ''..'' then (if stack = [] then None else walk (butlast stack) segs)
      else walk (stack @ [seg]) segs)"

datatype place = MinionsDir | MinionDir string | Elsewhere

definition locate :: "string \<Rightarrow> place" where
  "locate p =
     (case walk [] (splitSlash p) of
        None \<Rightarrow> Elsewhere
      | Some [] \<Rightarrow> MinionsDir
      | Some [n] \<Rightarrow> MinionDir n
      | Some (n # x # xs) \<Rightarrow> Elsewhere)"

text \<open>\<^verbatim>\<open>fs.existsSync(path.join(this.minionsDir, afterMinion))\<close>\<close>

definition dependencyExists :: "env \<Rightarrow> hive \<Rightarrow> string \<Rightarrow> bool" where
  "dependencyExists e s p =
     (case locate p of
        MinionsDir \<Rightarrow> True
      | MinionDir n \<Rightarrow> existsDir s n
      | Elsewhere \<Rightarrow> elsewhere_exists e p)"

text \<open>
  The file \<^verbatim>\<open>path.join(this.minionsDir, m.dependsOn, 'STATUS')\<close>: its content, or
  \<^term>\<open>None\<close> when \<^verbatim>\<open>fs.existsSync\<close> says it is not there. The minions directory holds
  minion directories only, so a file \<^verbatim>\<open>STATUS\<close> directly in it is outside the model too.
\<close>

definition dependencySTATUS :: "env \<Rightarrow> hive \<Rightarrow> string \<Rightarrow> string option" where
  "dependencySTATUS e s p =
     (case locate p of
        MinionDir n \<Rightarrow> (case minionDir s n of None \<Rightarrow> None | Some d \<Rightarrow> STATUS d)
      | MinionsDir \<Rightarrow> elsewhere_STATUS e p
      | Elsewhere \<Rightarrow> elsewhere_STATUS e p)"

subsection \<open>Docker\<close>

definition imageExists :: "env \<Rightarrow> bool" where
  "imageExists e = (docker e ImageInspect \<noteq> None)"

text \<open>
  \<^verbatim>\<open>if (!this.imageExists()) this.buildImage(...)\<close>: true when the code goes on, false
  when \<^verbatim>\<open>buildImage\<close> throws.
\<close>

definition ensureImage :: "env \<Rightarrow> bool" where
  "ensureImage e = (imageExists e \<or> docker e Build \<noteq> None)"

definition envVars :: "options \<Rightarrow> string list" where
  "envVars opts =
     (if truthy (claudeToken opts)
      then [''-e CLAUDE_CODE_OAUTH_TOKEN='' @ the (claudeToken opts)] else []) @
     (if keepAlive opts then [''-e KEEP_ALIVE=true''] else [])"

definition resourceArgs :: "string option \<Rightarrow> string option \<Rightarrow> string list" where
  "resourceArgs mem cpu =
     (if truthy mem then [''--memory='' @ the mem] else []) @
     (if truthy cpu then [''--cpus='' @ the cpu] else [])"

text \<open>
  \<^verbatim>\<open>try { stop; rm } catch {}\<close>: whether both commands went through. The callers drop
  the answer.
\<close>

definition tryStopRm :: "env \<Rightarrow> string \<Rightarrow> bool" where
  "tryStopRm e n = (docker e (Stop n) \<noteq> None \<and> docker e (Rm n) \<noteq> None)"

subsection \<open>Lifecycle operations\<close>

definition newMeta :: "string \<Rightarrow> string \<Rightarrow> string \<Rightarrow> string \<Rightarrow> meta" where
  "newMeta n created t st =
     \<lparr>name = n, createdAt = created, task = take 200 t, status = st,
      containerId = None, dependsOn = None, memory = None, cpus = None,
      startedAt = None, killedAt = None, pausedAt = None, resumedAt = None,
      restartedAt = None, retriedAt = None, retryOf = None, renamedFrom = None,
      renamedAt = None, clonedFrom = None, clonedAt = None\<rparr>"

definition newDir :: "meta \<Rightarrow> string \<Rightarrow> minion_dir" where
  "newDir m t = \<lparr>meta_json = Some m, TASK_md = Some t, STATUS = None, output_log = None\<rparr>"

definition spawn ::
  "env \<Rightarrow> string \<Rightarrow> string \<Rightarrow> options \<Rightarrow> hive \<Rightarrow> (error + string \<times> string) \<times> hive" where
  "spawn e n t opts s =
     (case validateName n of
        Some err \<Rightarrow> (Inl err, s)
      | None \<Rightarrow>
          if existsDir s n then (Inl AlreadyExists, s)
          else
            let m = newMeta n (now e) t ''pending'';
                s1 = writeDir n (newDir m t) s
            in if \<not> ensureImage e then (Inl DockerError, s1)
               else
                 (case docker e (Run n (envVars opts) (resourceArgs (o_memory opts) (o_cpus opts))) of
                    None \<Rightarrow> (Inl DockerError, s1)
                  | Some out \<Rightarrow>
                      let m1 = m\<lparr>containerId := Some (trim out), status := ''running'',
                                  memory := (if truthy (o_memory opts) then o_memory opts else memory m),
                                  cpus := (if truthy (o_cpus opts) then o_cpus opts else cpus m)\<rparr>
                      in (Inr (n, trim out), writeMeta n m1 s1)))"

definition spawnWaiting ::
  "env \<Rightarrow> string \<Rightarrow> string \<Rightarrow> string \<Rightarrow> options \<Rightarrow> hive \<Rightarrow> (error + string \<times> string) \<times> hive" where
  "spawnWaiting e n t afterMinion opts s =
     (case validateName n of
        Some err \<Rightarrow> (Inl err, s)
      | None \<Rightarrow>
          if existsDir s n then (Inl AlreadyExists, s)
          else if \<not> dependencyExists e s afterMinion then (Inl DependencyNotFound, s)
          else
            let m = (newMeta n (now e) t ''waiting'')\<lparr>dependsOn := Some afterMinion\<rparr>;
                m1 = m\<lparr>memory := (if truthy (o_memory opts) then o_memory opts else memory m),
                        cpus := (if truthy (o_cpus opts) then o_cpus opts else cpus m)\<rparr>
            in (Inr (n, afterMinion), writeDir n (newDir m1 t) s))"

text \<open>
  \<^verbatim>\<open>start\<close>. A directory without \<^verbatim>\<open>meta.json\<close> makes \<^verbatim>\<open>readFileSync\<close> throw.
\<close>

definition start ::
  "env \<Rightarrow> string \<Rightarrow> options \<Rightarrow> hive \<Rightarrow> (error + string \<times> string) \<times> hive" where
  "start e n opts s =
     (case minionDir s n of
        None \<Rightarrow> (Inl NotFound, s)
      | Some d \<Rightarrow>
          (case meta_json d of
             None \<Rightarrow> (Inl FsError, s)
           | Some m \<Rightarrow>
               if status m \<noteq> ''pending'' \<and> status m \<noteq> ''waiting'' then (Inl InvalidTransition, s)
               else if TASK_md d = None then (Inl MissingTask, s)
               else if \<not> ensureImage e then (Inl DockerError, s)
               else
                 let mem = js_or (o_memory opts) (memory m);
                     cpu = js_or (o_cpus opts) (cpus m)
                 in (case docker e (Run n (envVars opts) (resourceArgs mem cpu)) of
                       None \<Rightarrow> (Inl DockerError, s)
                     | Some out \<Rightarrow>
                         let m1 = m\<lparr>containerId := Some (trim out), status := ''running'',
                                     startedAt := Some (now e),
                                     memory := (if truthy mem then mem else memory m),
                                     cpus := (if truthy cpu then cpu else cpus m)\<rparr>
                         in (Inr (n, trim out), writeMeta n m1 s))))"

definition kill :: "env \<Rightarrow> string \<Rightarrow> hive \<Rightarrow> (error + string \<times> string) \<times> hive" where
  "kill e n s =
     (case minionDir s n of
        None \<Rightarrow> (Inl NotFound, s)
      | Some d \<Rightarrow>
          let swallowed = tryStopRm e n
          in (case meta_json d of
                None \<Rightarrow> (Inl FsError, s)
              | Some m \<Rightarrow>
                  (Inr (n, ''killed''),
                   writeMeta n (m\<lparr>status := ''killed'', killedAt := Some (now e)\<rparr>) s)))"

definition pause :: "env \<Rightarrow> string \<Rightarrow> hive \<Rightarrow> (error + string \<times> string) \<times> hive" where
  "pause e n s =
     (case minionDir s n of
        None \<Rightarrow> (Inl NotFound, s)
      | Some d \<Rightarrow>
          (case meta_json d of
             None \<Rightarrow> (Inl FsError, s)
           | Some m \<Rightarrow>
               if \<not> truthy (containerId m) then (Inl NoContainer, s)
               else
                 (case docker e (Pause n) of
                    None \<Rightarrow> (Inl DockerError, s)
                  | Some out \<Rightarrow>
                      (Inr (n, ''paused''),
                       writeMeta n (m\<lparr>status := ''paused'', pausedAt := Some (now e)\<rparr>) s))))"

definition resume :: "env \<Rightarrow> string \<Rightarrow> hive \<Rightarrow> (error + string \<times> string) \<times> hive" where
  "resume e n s =
     (case minionDir s n of
        None \<Rightarrow> (Inl NotFound, s)
      | Some d \<Rightarrow>
          (case meta_json d of
             None \<Rightarrow> (Inl FsError, s)
           | Some m \<Rightarrow>
               if \<not> truthy (containerId m) then (Inl NoContainer, s)
               else
                 (case docker e (Unpause n) of
                    None \<Rightarrow> (Inl DockerError, s)
                  | Some out \<Rightarrow>
                      (Inr (n, ''running''),
                       writeMeta n (m\<lparr>status := ''running'', resumedAt := Some (now e)\<rparr>) s))))"

definition restart :: "env \<Rightarrow> string \<Rightarrow> hive \<Rightarrow> (error + string \<times> string) \<times> hive" where
  "restart e n s =
     (case minionDir s n of
        None \<Rightarrow> (Inl NotFound, s)
      | Some d \<Rightarrow>
          (case meta_json d of
             None \<Rightarrow> (Inl FsError, s)
           | Some m \<Rightarrow>
               if \<not> truthy (containerId m) then (Inl NoContainer, s)
               else
                 (case docker e (Restart n) of
                    None \<Rightarrow> (Inl DockerError, s)
                  | Some out \<Rightarrow>
                      (Inr (n, ''restarted''),
                       writeMeta n (m\<lparr>status := ''running'', restartedAt := Some (now e)\<rparr>) s))))"

text \<open>
  \<^verbatim>\<open>retry\<close>: the old container is stopped on a best-effort basis, \<^verbatim>\<open>STATUS\<close> and the
  output directory are cleared, and a fresh \<^verbatim>\<open>meta.json\<close> replaces the old one.
\<close>

definition retry ::
  "env \<Rightarrow> string \<Rightarrow> options \<Rightarrow> hive \<Rightarrow> (error + string \<times> string) \<times> hive" where
  "retry e n opts s =
     (case minionDir s n of
        None \<Rightarrow> (Inl NotFound, s)
      | Some d \<Rightarrow>
          (case TASK_md d of
             None \<Rightarrow> (Inl MissingTask, s)
           | Some t \<Rightarrow>
               (case meta_json d of
                  None \<Rightarrow> (Inl FsError, s)
                | Some oldMeta \<Rightarrow>
                    let swallowed = tryStopRm e n;
                        s1 = writeDir n (d\<lparr>STATUS := None, output_log := None\<rparr>) s;
                        mem = js_or (o_memory opts) (memory oldMeta);
                        cpu = js_or (o_cpus opts) (cpus oldMeta)
                    in if \<not> ensureImage e then (Inl DockerError, s1)
                       else
                         (case docker e (Run n (envVars opts) (resourceArgs mem cpu)) of
                            None \<Rightarrow> (Inl DockerError, s1)
                          | Some out \<Rightarrow>
                              let m = (newMeta n (now e) t ''running'')
                                        \<lparr>containerId := Some (trim out),
                                         retriedAt := Some (now e),
                                         retryOf := Some (createdAt oldMeta),
                                         memory := (if truthy mem then mem else None),
                                         cpus := (if truthy cpu then cpu else None)\<rparr>
                              in (Inr (n, trim out), writeMeta n m s1)))))"

text \<open>\<^verbatim>\<open>_copyDirRecursive\<close> on an inbox: the files of the source overwrite or join those
  already in the destination.\<close>

definition copyInbox ::
  "(string \<times> message) list \<Rightarrow> (string \<times> message) list \<Rightarrow> (string \<times> message) list" where
  "copyInbox src dest = fold (\<lambda>(f, msg) acc. AList.update f msg acc) src dest"

definition clone ::
  "env \<Rightarrow> string \<Rightarrow> string \<Rightarrow> clone_options \<Rightarrow> hive \<Rightarrow> (error + string \<times> string) \<times> hive" where
  "clone e sourceName newName copts s =
     (case validateName newName of
        Some err \<Rightarrow> (Inl err, s)
      | None \<Rightarrow>
          (case minionDir s sourceName of
             None \<Rightarrow> (Inl NotFound, s)
           | Some sd \<Rightarrow>
               if existsDir s newName then (Inl AlreadyExists, s)
               else
                 (case TASK_md sd of
                    None \<Rightarrow> (Inl MissingTask, s)
                  | Some t \<Rightarrow>
                      if co_workspace copts then
                        let d1 = sd\<lparr>meta_json :=
                                       map_option
                                         (\<lambda>m. m\<lparr>name := newName, clonedFrom := Some sourceName,
                                                 clonedAt := Some (now e), containerId := None,
                                                 status := ''pending''\<rparr>)
                                         (meta_json sd),
                                     STATUS := None, output_log := None\<rparr>;
                            s1 = writeDir newName d1 s;
                            s2 = (if co_inbox copts then
                                    (case map_of (network s1) sourceName of
                                       None \<Rightarrow> s1
                                     | Some files \<Rightarrow>
                                         s1\<lparr>network :=
                                              AList.update newName
                                                (copyInbox files
                                                   (case map_of (network s1) newName of
                                                      None \<Rightarrow> [] | Some old \<Rightarrow> old))
                                                (network s1)\<rparr>)
                                  else s1)
                        in (Inr (newName, ''workspace''), s2)
                      else
                        let m = (newMeta newName (now e) t ''pending'')
                                  \<lparr>clonedFrom := Some sourceName, clonedAt := Some (now e)\<rparr>
                        in (Inr (newName, ''task-only''), writeDir newName (newDir m t) s))))"

text \<open>
  \<^verbatim>\<open>rename\<close>. The docker status is read with the quotes of the format string removed;
  a failing \<^verbatim>\<open>inspect\<close> is swallowed. \<^verbatim>\<open>fs.renameSync\<close> of the inbox throws when the
  target inbox exists and holds files.
\<close>

definition containerLive :: "env \<Rightarrow> string \<Rightarrow> bool" where
  "containerLive e n =
     (case docker e (Inspect n) of
        None \<Rightarrow> False
      | Some out \<Rightarrow>
          (let st = filter (\<lambda>c. c \<noteq> CHR 0x27) (trim out)
           in st = ''running'' \<or> st = ''paused''))"

definition rename :: "env \<Rightarrow> string \<Rightarrow> string \<Rightarrow> hive \<Rightarrow> (error + string \<times> string) \<times> hive" where
  "rename e oldName newName s =
     (case validateName newName of
        Some err \<Rightarrow> (Inl err, s)
      | None \<Rightarrow>
          (case minionDir s oldName of
             None \<Rightarrow> (Inl NotFound, s)
           | Some d \<Rightarrow>
               if existsDir s newName then (Inl AlreadyExists, s)
               else
                 (case meta_json d of
                    None \<Rightarrow> (Inl FsError, s)
                  | Some m \<Rightarrow>
                      if truthy (containerId m) \<and> containerLive e oldName
                      then (Inl RunningConflict, s)
                      else
                        let m1 = m\<lparr>name := newName, renamedFrom := Some oldName,
                                    renamedAt := Some (now e), containerId := None\<rparr>;
                            s1 = s\<lparr>minions :=
                                     AList.update newName (d\<lparr>meta_json := Some m1\<rparr>)
                                       (AList.delete oldName (minions s))\<rparr>
                        in (case map_of (network s1) oldName of
                              None \<Rightarrow> (Inr (oldName, newName), s1)
                            | Some files \<Rightarrow>
                                (case map_of (network s1) newName of
                                   Some (f # fs) \<Rightarrow> (Inl FsError, s1)
                                 | _ \<Rightarrow>
                                     (Inr (oldName, newName),
                                      s1\<lparr>network :=
                                           AList.update newName files
                                             (AList.delete oldName (network s1))\<rparr>))))))"

subsection \<open>Listing and status\<close>

record listed =
  l_meta :: meta
  containerStatus :: "string option"
  taskStatus :: "string option"

definition listEntry :: "env \<Rightarrow> string \<times> minion_dir \<Rightarrow> listed list" where
  "listEntry e p =
     (case meta_json (snd p) of
        None \<Rightarrow> []
      | Some m \<Rightarrow>
          [\<lparr>l_meta = m,
            containerStatus =
              (if truthy (containerId m)
               then Some (case docker e (Inspect (fst p)) of
                            Some out \<Rightarrow> trim out | None \<Rightarrow> ''removed'')
               else None),
            taskStatus = map_option trim (STATUS (snd p))\<rparr>])"

definition list_op :: "env \<Rightarrow> hive \<Rightarrow> listed list" where
  "list_op e s = concat (map (listEntry e) (readdirSync (minions s)))"

record status_info =
  st_meta :: meta
  st_taskStatus :: "string option"
  st_output :: "string option"
  st_logs :: "string option"

definition status_op :: "env \<Rightarrow> string \<Rightarrow> hive \<Rightarrow> error + status_info" where
  "status_op e n s =
     (case minionDir s n of
        None \<Rightarrow> Inl NotFound
      | Some d \<Rightarrow>
          (case meta_json d of
             None \<Rightarrow> Inl FsError
           | Some m \<Rightarrow>
               Inr \<lparr>st_meta = m,
                    st_taskStatus = map_option trim (STATUS d),
                    st_output = output_log d,
                    st_logs =
                      (if truthy (containerId m)
                       then Some (case docker e (Logs n) of
                                    Some l \<Rightarrow> l | None \<Rightarrow> ''(container removed)'')
                       else None)\<rparr>))"

subsection \<open>The dependency scheduler\<close>

text \<open>
  The loop of \<^verbatim>\<open>checkAndStartDependents\<close> over the snapshot \<^verbatim>\<open>this.list()\<close> returned.
  \<open>E n\<close> is the outside world while the entry of minion \<open>n\<close> is handled. A throw of
  \<^verbatim>\<open>start\<close> leaves the loop at once: the code has no \<^verbatim>\<open>try\<close> around it.
\<close>

fun startLoop ::
  "(string \<Rightarrow> env) \<Rightarrow> options \<Rightarrow> listed list \<Rightarrow> (string \<times> string) list \<Rightarrow> hive \<Rightarrow>
   (error + (string \<times> string) list) \<times> hive" where
  "startLoop E opts [] started s = (Inr started, s)"
| "startLoop E opts (m # ms) started s =
     (if status (l_meta m) \<noteq> ''waiting'' \<or> \<not> truthy (dependsOn (l_meta m))
      then startLoop E opts ms started s
      else
        (case dependencySTATUS (E (name (l_meta m))) s (the (dependsOn (l_meta m))) of
           None \<Rightarrow> startLoop E opts ms started s
         | Some depStatus \<Rightarrow>
             if trim depStatus = ''COMPLETE'' then
               (case start (E (name (l_meta m))) (name (l_meta m)) opts s of
                  (Inl err, s') \<Rightarrow> (Inl err, s')
                | (Inr r, s') \<Rightarrow>
                    startLoop E opts ms
                      (started @ [(name (l_meta m), the (dependsOn (l_meta m)))]) s')
             else startLoop E opts ms started s))"

definition checkAndStartDependents ::
  "env \<Rightarrow> (string \<Rightarrow> env) \<Rightarrow> options \<Rightarrow> hive \<Rightarrow> (error + (string \<times> string) list) \<times> hive" where
  "checkAndStartDependents e0 E opts s = startLoop E opts (list_op e0 s) [] s"

subsection \<open>Waiting for completion\<close>

text \<open>
  \<^verbatim>\<open>wait\<close> polls \<^verbatim>\<open>status(name)\<close>. What it sees changes between polls, so the outside
  world is indexed by the poll: the file system and docker at poll \<open>k\<close>, the milliseconds
  \<open>dur k\<close> that pass between the start of poll \<open>k\<close> and its \<^verbatim>\<open>Date.now()\<close>, and the
  milliseconds \<open>late k\<close> by which the clock, when the timer after poll \<open>k\<close> has fired,
  is ahead of the delay the timer was set to (negative when the wall clock was set back).
  The loop need not return (a clock that runs backwards), so not returning is \<^term>\<open>None\<close>.
\<close>

record wait_world =
  startTime :: int
  fs_at :: "nat \<Rightarrow> hive"
  env_at :: "nat \<Rightarrow> env"
  dur :: "nat \<Rightarrow> int"
  late :: "nat \<Rightarrow> int"

record wait_options =
  timeoutMs :: "int option"
  pollMs :: "int option"

text \<open>\<^verbatim>\<open>x || d\<close> on a number or \<^verbatim>\<open>undefined\<close>.\<close>

definition js_or_num :: "int option \<Rightarrow> int \<Rightarrow> int" where
  "js_or_num x d = (case x of None \<Rightarrow> d | Some v \<Rightarrow> if v = 0 then d else v)"

text \<open>
  \<^verbatim>\<open>setTimeout(resolve, pollMs)\<close>: Node sets a delay below 1 ms or above
  \<open>2\<^sup>3\<^sup>1 - 1\<close> ms to 1 ms.
\<close>

definition timerDelay :: "int \<Rightarrow> int" where
  "timerDelay ms = (if 1 \<le> ms \<and> ms \<le> 2147483647 then ms else 1)"

partial_function (option) wait_loop ::
  "wait_world \<Rightarrow> string \<Rightarrow> int \<Rightarrow> int \<Rightarrow> nat \<Rightarrow> int \<Rightarrow> (error + string \<times> string option) option" where
  "wait_loop w n timeout poll k t =
     (case status_op (env_at w k) n (fs_at w k) of
        Inl err \<Rightarrow> Some (Inl err)
      | Inr st \<Rightarrow>
          if st_taskStatus st = Some ''COMPLETE'' then Some (Inr (''COMPLETE'', st_output st))
          else if st_taskStatus st = Some ''FAILED'' then Some (Inr (''FAILED'', st_output st))
          else if t + dur w k - startTime w > timeout then Some (Inr (''TIMEOUT'', st_output st))
          else wait_loop w n timeout poll (Suc k) (t + dur w k + timerDelay poll + late w k))"

definition wait ::
  "wait_world \<Rightarrow> string \<Rightarrow> wait_options \<Rightarrow> (error + string \<times> string option) option" where
  "wait w n opts =
     wait_loop w n (js_or_num (timeoutMs opts) 300000) (js_or_num (pollMs opts) 2000) 0 (startTime w)"

text \<open>The time at which poll \<open>k\<close> reads the clock, as the loop computes it.\<close>

fun check_time :: "wait_world \<Rightarrow> int \<Rightarrow> nat \<Rightarrow> int" where
  "check_time w poll 0 = startTime w + dur w 0"
| "check_time w poll (Suc k) =
     check_time w poll k + timerDelay poll + late w k + dur w (Suc k)"

definition signal_at :: "wait_world \<Rightarrow> string \<Rightarrow> nat \<Rightarrow> string option" where
  "signal_at w n k =
     (case minionDir (fs_at w k) n of None \<Rightarrow> None | Some d \<Rightarrow> map_option trim (STATUS d))"

subsection \<open>The mailbox\<close>

text \<open>A bigint in a template string: its decimal digits.\<close>

definition digit_char :: "nat \<Rightarrow> char" where
  "digit_char d = ''0123456789'' ! d"

function dec :: "int \<Rightarrow> string" where
  "dec n =
     (if n < 0 then CHR ''-'' # dec (- n)
      else if n < 10 then [digit_char (nat n)]
      else dec (n div 10) @ [digit_char (nat (n mod 10))])"
  by pat_completeness auto
termination
  by (relation "measure (\<lambda>n. if n < 0 then Suc (nat (- n)) else nat n)") auto

declare dec.simps [simp del]

text \<open>
  \<^verbatim>\<open>Array.prototype.sort\<close> without a comparator orders strings by their code units.
\<close>

fun insert_sorted :: "string \<Rightarrow> string list \<Rightarrow> string list" where
  "insert_sorted x [] = [x]"
| "insert_sorted x (y # ys) = (if str_less y x then y # insert_sorted x ys else x # y # ys)"

fun js_sort :: "string list \<Rightarrow> string list" where
  "js_sort [] = []"
| "js_sort (x # xs) = insert_sorted x (js_sort xs)"

definition inboxDir :: "hive \<Rightarrow> string \<Rightarrow> (string \<times> message) list option" where
  "inboxDir s n = map_of (network s) n"

definition message_id :: "env \<Rightarrow> string \<Rightarrow> string" where
  "message_id e sender = dec (hrtime e) @ ''-'' @ sender @ ''-'' @ rand e"

definition send ::
  "env \<Rightarrow> string \<Rightarrow> string \<Rightarrow> string \<Rightarrow> hive \<Rightarrow> (error + message) \<times> hive" where
  "send e sender recipient body s =
     (if \<not> existsDir s sender then (Inl SenderNotFound, s)
      else if \<not> existsDir s recipient then (Inl RecipientNotFound, s)
      else
        let files = (case inboxDir s recipient of None \<Rightarrow> [] | Some fs \<Rightarrow> fs);
            msg = \<lparr>msg_id = message_id e sender, msg_from = sender, msg_to = recipient,
                   msg_body = body, msg_timestamp = now e\<rparr>
        in (Inr msg,
            s\<lparr>network :=
                AList.update recipient
                  (AList.update (message_id e sender @ ''.json'') msg files) (network s)\<rparr>))"

definition jsonFiles :: "(string \<times> message) list \<Rightarrow> string list" where
  "jsonFiles files = filter (endsWith ''.json'') (map fst files)"

definition inbox :: "string \<Rightarrow> hive \<Rightarrow> error + message list" where
  "inbox n s =
     (if \<not> existsDir s n then Inl NotFound
      else
        (case inboxDir s n of
           None \<Rightarrow> Inr []
         | Some files \<Rightarrow> Inr (map (\<lambda>f. the (map_of files f)) (js_sort (jsonFiles files)))))"

definition clearInbox :: "string \<Rightarrow> hive \<Rightarrow> (error + nat) \<times> hive" where
  "clearInbox n s =
     (if \<not> existsDir s n then (Inl NotFound, s)
      else
        (case inboxDir s n of
           None \<Rightarrow> (Inr 0, s)
         | Some files \<Rightarrow>
             (Inr (length (jsonFiles files)),
              s\<lparr>network :=
                  AList.update n (filter (\<lambda>p. \<not> endsWith ''.json'' (fst p)) files) (network s)\<rparr>)))"

subsection \<open>The worker process\<close>

text \<open>
  \<^verbatim>\<open>entrypoint.sh\<close> runs inside the container and reports with
  \<^verbatim>\<open>echo "COMPLETE" > "$STATUS_FILE"\<close>: the file holds the word and a line feed.
\<close>

definition echoStatus :: "string \<Rightarrow> string \<Rightarrow> hive \<Rightarrow> hive" where
  "echoStatus word n s =
     (case minionDir s n of
        None \<Rightarrow> s
      | Some d \<Rightarrow> writeDir n (d\<lparr>STATUS := Some (word @ [CHR 0x0A])\<rparr>) s)"

section \<open>The vocabulary of the specification\<close>

text \<open>The metadata of a worker, and its terminal signal as the class reads it (trimmed).\<close>

definition metaOf :: "hive \<Rightarrow> string \<Rightarrow> meta option" where
  "metaOf s n = (case minionDir s n of None \<Rightarrow> None | Some d \<Rightarrow> meta_json d)"

definition signal :: "hive \<Rightarrow> string \<Rightarrow> string option" where
  "signal s n = (case minionDir s n of None \<Rightarrow> None | Some d \<Rightarrow> map_option trim (STATUS d))"

text \<open>
  A plain name is one path segment: not empty, without a slash, and neither \<^verbatim>\<open>.\<close> nor
  \<^verbatim>\<open>..\<close>.
\<close>

definition plain_name :: "string \<Rightarrow> bool" where
  "plain_name n = (n \<noteq> [] \<and> CHR ''/'' \<notin> set n \<and> n \<noteq> ''.'' \<and> n \<noteq> ''..'')"

text \<open>
  A registry is well formed when no directory name is listed twice, every
  \<^verbatim>\<open>meta.json\<close> carries the name of its directory, and every \<^verbatim>\<open>dependsOn\<close> that is
  set is a plain name.
\<close>

definition named_ok :: "string \<times> minion_dir \<Rightarrow> bool" where
  "named_ok p = (case meta_json (snd p) of None \<Rightarrow> True | Some m \<Rightarrow> name m = fst p)"

definition depends_ok :: "string \<times> minion_dir \<Rightarrow> bool" where
  "depends_ok p =
     (case meta_json (snd p) of
        None \<Rightarrow> True
      | Some m \<Rightarrow> (case dependsOn m of None \<Rightarrow> True | Some d \<Rightarrow> d = [] \<or> plain_name d))"

definition wf :: "hive \<Rightarrow> bool" where
  "wf s =
     (distinct (map fst (minions s)) \<and> list_all named_ok (minions s) \<and>
      list_all depends_ok (minions s))"

text \<open>
  The workers a scheduler pass is to promote: status \<^verbatim>\<open>waiting\<close>, \<^verbatim>\<open>dependsOn\<close> set, and
  the terminal signal of the dependency present with the value \<^verbatim>\<open>COMPLETE\<close>.
\<close>

definition eligible :: "hive \<Rightarrow> string \<Rightarrow> bool" where
  "eligible s n =
     (case metaOf s n of
        None \<Rightarrow> False
      | Some m \<Rightarrow>
          status m = ''waiting'' \<and> truthy (dependsOn m) \<and>
          signal s (the (dependsOn m)) = Some ''COMPLETE'')"

text \<open>Whether \<^verbatim>\<open>start\<close> returns rather than throws.\<close>

definition starts :: "env \<Rightarrow> string \<Rightarrow> options \<Rightarrow> hive \<Rightarrow> bool" where
  "starts e n opts s = (case fst (start e n opts s) of Inl err \<Rightarrow> False | Inr r \<Rightarrow> True)"

definition statusOf :: "hive \<Rightarrow> string \<Rightarrow> string option" where
  "statusOf s n = map_option status (metaOf s n)"

definition handleOf :: "hive \<Rightarrow> string \<Rightarrow> string option" where
  "handleOf s n = (case metaOf s n of None \<Rightarrow> None | Some m \<Rightarrow> containerId m)"

text \<open>The test of the loop on one entry of the snapshot.\<close>

definition ready :: "(string \<Rightarrow> env) \<Rightarrow> hive \<Rightarrow> listed \<Rightarrow> bool" where
  "ready E s m =
     (status (l_meta m) = ''waiting'' \<and> truthy (dependsOn (l_meta m)) \<and>
      map_option trim
        (dependencySTATUS (E (name (l_meta m))) s (the (dependsOn (l_meta m)))) =
        Some ''COMPLETE'')"

text \<open>
  The rule for names in the words of the specification: the pattern
  \<^verbatim>\<open>[A-Za-z0-9][A-Za-z0-9_.-]*\<close> and at most 128 characters.
\<close>

definition spec_name_ok :: "string \<Rightarrow> bool" where
  "spec_name_ok n =
     (n \<noteq> [] \<and> alnum (hd n) \<and> (\<forall>c\<in>set (tl n). name_char c) \<and> length n \<le> 128)"

text \<open>
  A resource limit in the words of the specification: the explicit override if one is
  given (a non-empty value), otherwise the value stored before.
\<close>

definition resolved :: "string option \<Rightarrow> string option \<Rightarrow> string option" where
  "resolved override stored =
     (case override of
        None \<Rightarrow> stored
      | Some v \<Rightarrow> if v = [] then stored else Some v)"

text \<open>The names of the snapshot, in the order the pass visits them.\<close>

definition listing :: "env \<Rightarrow> hive \<Rightarrow> string list" where
  "listing e s = map (\<lambda>m. name (l_meta m)) (list_op e s)"

subsection \<open>The results of waiting\<close>

text \<open>The clock when poll \<open>k\<close> begins.\<close>

fun entry_time :: "wait_world \<Rightarrow> int \<Rightarrow> nat \<Rightarrow> int" where
  "entry_time w poll 0 = startTime w"
| "entry_time w poll (Suc k) = check_time w poll k + timerDelay poll + late w k"

text \<open>The worker is there, with its metadata, when poll \<open>k\<close> looks.\<close>

definition present_at :: "wait_world \<Rightarrow> string \<Rightarrow> nat \<Rightarrow> bool" where
  "present_at w n k =
     (case minionDir (fs_at w k) n of None \<Rightarrow> False | Some d \<Rightarrow> meta_json d \<noteq> None)"

definition output_at :: "wait_world \<Rightarrow> string \<Rightarrow> nat \<Rightarrow> string option" where
  "output_at w n k = (case minionDir (fs_at w k) n of None \<Rightarrow> None | Some d \<Rightarrow> output_log d)"

text \<open>
  What poll \<open>k\<close> decides, in the words of the specification: \<^verbatim>\<open>COMPLETE\<close> when the
  terminal signal reads \<^verbatim>\<open>COMPLETE\<close>, \<^verbatim>\<open>FAILED\<close> when it reads \<^verbatim>\<open>FAILED\<close>,
  \<^verbatim>\<open>TIMEOUT\<close> when neither is observed and more than the timeout has elapsed, and
  nothing otherwise.
\<close>

definition outcome_at :: "wait_world \<Rightarrow> string \<Rightarrow> int \<Rightarrow> int \<Rightarrow> nat \<Rightarrow> string option" where
  "outcome_at w n timeout poll k =
     (if signal_at w n k = Some ''COMPLETE'' then Some ''COMPLETE''
      else if signal_at w n k = Some ''FAILED'' then Some ''FAILED''
      else if check_time w poll k - startTime w > timeout then Some ''TIMEOUT''
      else None)"

subsection \<open>The lifecycle operations as a transition system\<close>

datatype op =
    Spawn string string options
  | SpawnWaiting string string string options
  | Start string options
  | Pause string
  | Resume string
  | Restart string
  | Kill string
  | Retry string options
  | Clone string string clone_options
  | Rename string string

text \<open>The file system an operation leaves behind, whether it returns or throws.\<close>

fun exec :: "env \<Rightarrow> op \<Rightarrow> hive \<Rightarrow> hive" where
  "exec e (Spawn n t opts) s = snd (spawn e n t opts s)"
| "exec e (SpawnWaiting n t dep opts) s = snd (spawnWaiting e n t dep opts s)"
| "exec e (Start n opts) s = snd (start e n opts s)"
| "exec e (Pause n) s = snd (pause e n s)"
| "exec e (Resume n) s = snd (resume e n s)"
| "exec e (Restart n) s = snd (restart e n s)"
| "exec e (Kill n) s = snd (kill e n s)"
| "exec e (Retry n opts) s = snd (retry e n opts s)"
| "exec e (Clone src n copts) s = snd (clone e src n copts s)"
| "exec e (Rename old n) s = snd (rename e old n s)"

text \<open>A run: each operation with the outside world it meets.\<close>

fun run :: "(env \<times> op) list \<Rightarrow> hive \<Rightarrow> hive" where
  "run [] s = s"
| "run (x # xs) s = run xs (exec (fst x) (snd x) s)"

fun is_rename :: "op \<Rightarrow> bool" where
  "is_rename (Rename old n) = True"
| "is_rename a = False"

text \<open>
  The invariant of the specification on one metadata record: \<^verbatim>\<open>running\<close> or \<^verbatim>\<open>paused\<close>
  implies a container id, \<^verbatim>\<open>waiting\<close> implies \<^verbatim>\<open>dependsOn\<close> and no container id.
\<close>

definition handle_ok :: "meta \<Rightarrow> bool" where
  "handle_ok m = (status m = ''running'' \<or> status m = ''paused'' \<longrightarrow> containerId m \<noteq> None)"

definition waiting_ok :: "meta \<Rightarrow> bool" where
  "waiting_ok m = (status m = ''waiting'' \<longrightarrow> dependsOn m \<noteq> None \<and> containerId m = None)"

definition every_meta :: "(meta \<Rightarrow> bool) \<Rightarrow> hive \<Rightarrow> bool" where
  "every_meta P s =
     list_all (\<lambda>p. case meta_json (snd p) of None \<Rightarrow> True | Some m \<Rightarrow> P m) (minions s)"

definition invariant :: "hive \<Rightarrow> bool" where
  "invariant s = every_meta (\<lambda>m. handle_ok m \<and> waiting_ok m) s"

text \<open>The same, with a renamed worker excused from having a container id.\<close>

definition invariant_renamed :: "hive \<Rightarrow> bool" where
  "invariant_renamed s =
     every_meta (\<lambda>m. waiting_ok m \<and> (handle_ok m \<or> renamedFrom m \<noteq> None)) s"

text \<open>Both at once, for the proofs: \<open>r\<close> says whether the excuse is granted.\<close>

definition inv_meta :: "bool \<Rightarrow> meta \<Rightarrow> bool" where
  "inv_meta r m = (waiting_ok m \<and> (handle_ok m \<or> r \<and> renamedFrom m \<noteq> None))"

section \<open>Example registries\<close>

definition env_down :: env where
  "env_down = \<lparr>docker = (\<lambda>c. None), now = ''2026-01-01T00:00:00.000Z'', hrtime = 0, rand = ''abcd'',
      elsewhere_exists = (\<lambda>p. False), elsewhere_STATUS = (\<lambda>p. None)\<rparr>"

definition env_up :: env where
  "env_up = \<lparr>docker = (\<lambda>c. Some ''c0ffee''), now = ''2026-01-02T00:00:00.000Z'', hrtime = 0, rand = ''abcd'',
      elsewhere_exists = (\<lambda>p. False), elsewhere_STATUS = (\<lambda>p. None)\<rparr>"

definition no_options :: options where
  "no_options = \<lparr>claudeToken = None, keepAlive = False, o_memory = None, o_cpus = None\<rparr>"

definition empty_hive :: hive where
  "empty_hive = \<lparr>minions = [], network = []\<rparr>"

definition memory_1g :: options where
  "memory_1g = \<lparr>claudeToken = None, keepAlive = False, o_memory = Some ''1g'', o_cpus = None\<rparr>"

text \<open>Worker \<open>a\<close> spawned and running.\<close>

definition hive_a :: hive where
  "hive_a = snd (spawn env_up ''a'' ''task a'' no_options empty_hive)"

text \<open>\<open>a\<close> has reported \<^verbatim>\<open>COMPLETE\<close> and \<open>b\<close> waits for \<open>a\<close>.\<close>

definition hive_pair :: hive where
  "hive_pair =
     snd (spawnWaiting env_up ''b'' ''task b'' ''a'' no_options (echoStatus ''COMPLETE'' ''a'' hive_a))"

text \<open>The chain: as before, and \<open>c\<close> waits for \<open>b\<close>.\<close>

definition hive_chain :: hive where
  "hive_chain = snd (spawnWaiting env_up ''c'' ''task c'' ''b'' no_options hive_pair)"

text \<open>Two workers \<open>w1\<close> and \<open>w2\<close> wait for \<open>a\<close>, which has reported \<^verbatim>\<open>COMPLETE\<close>.\<close>

definition hive_fan :: hive where
  "hive_fan =
     snd (spawnWaiting env_up ''w2'' ''task 2'' ''a'' no_options
       (snd (spawnWaiting env_up ''w1'' ''task 1'' ''a'' no_options
         (echoStatus ''COMPLETE'' ''a'' hive_a))))"

text \<open>
  Three workers; \<open>bob\<close> sends \<open>first\<close> to \<open>alice\<close> when the high-resolution timer
  reads 999999000000 ns, then \<open>charlie\<close> sends \<open>second\<close> to \<open>alice\<close> one millisecond
  later.
\<close>

definition hive_abc :: hive where
  "hive_abc =
     snd (spawn env_up ''charlie'' ''task c'' no_options
       (snd (spawn env_up ''bob'' ''task b'' no_options
         (snd (spawn env_up ''alice'' ''task a'' no_options empty_hive)))))"

definition env_tick1 :: env where
  "env_tick1 = \<lparr>docker = (\<lambda>c. None), now = ''2026-01-03T00:00:00.000Z'',
                hrtime = 999999000000, rand = ''k3x9'',
                elsewhere_exists = (\<lambda>p. False), elsewhere_STATUS = (\<lambda>p. None)\<rparr>"

definition env_tick2 :: env where
  "env_tick2 = \<lparr>docker = (\<lambda>c. None), now = ''2026-01-03T00:00:00.000Z'',
                hrtime = 1000000000000, rand = ''p0q7'',
                elsewhere_exists = (\<lambda>p. False), elsewhere_STATUS = (\<lambda>p. None)\<rparr>"

definition hive_mail :: hive where
  "hive_mail =
     snd (send env_tick2 ''charlie'' ''alice'' ''second''
       (snd (send env_tick1 ''bob'' ''alice'' ''first'' hive_abc)))"

text \<open>The container of a finished worker: docker reports \<^verbatim>\<open>exited\<close>.\<close>

definition env_exited :: env where
  "env_exited =
     \<lparr>docker = (\<lambda>c. case c of Inspect n \<Rightarrow> Some ''exited'' | _ \<Rightarrow> None),
      now = ''2026-01-04T00:00:00.000Z'', hrtime = 0, rand = ''abcd'',
      elsewhere_exists = (\<lambda>p. False), elsewhere_STATUS = (\<lambda>p. None)\<rparr>"

text \<open>Worker \<open>a\<close> is spawned, its container exits, and it is renamed to \<open>b\<close>.\<close>

definition spawn_then_rename :: "(env \<times> op) list" where
  "spawn_then_rename = [(env_up, Spawn ''a'' ''task a'' no_options), (env_exited, Rename ''a'' ''b'')]"

text \<open>A run of every operation but \<^verbatim>\<open>rename\<close>.\<close>

definition busy_run :: "(env \<times> op) list" where
  "busy_run =
     [(env_up, Spawn ''a'' ''task a'' no_options),
      (env_up, SpawnWaiting ''b'' ''task b'' ''a'' no_options),
      (env_up, Pause ''a''), (env_up, Resume ''a''), (env_up, Restart ''a''),
      (env_up, Start ''b'' no_options), (env_down, Kill ''a''),
      (env_up, Retry ''a'' no_options),
      (env_up, Clone ''b'' ''c'' \<lparr>co_workspace = True, co_inbox = False\<rparr>)]"

text \<open>
  A wait on worker \<open>a\<close> with a timeout of 50 ms and a poll interval of 10 ms: each poll
  takes 1 ms, timers fire on time, and the worker reports \<^verbatim>\<open>COMPLETE\<close> before the
  third poll.
\<close>

definition wait_50_10 :: wait_options where
  "wait_50_10 = \<lparr>timeoutMs = Some 50, pollMs = Some 10\<rparr>"

definition world_done_at_2 :: wait_world where
  "world_done_at_2 =
     \<lparr>startTime = 1000,
      fs_at = (\<lambda>k. if k < 2 then hive_a else echoStatus ''COMPLETE'' ''a'' hive_a),
      env_at = (\<lambda>k. env_up), dur = (\<lambda>k. 1), late = (\<lambda>k. 0)\<rparr>"

text \<open>The same wait on a worker that never reports.\<close>

definition world_never_done :: wait_world where
  "world_never_done =
     \<lparr>startTime = 1000, fs_at = (\<lambda>k. hive_a), env_at = (\<lambda>k. env_up),
      dur = (\<lambda>k. 1), late = (\<lambda>k. 0)\<rparr>"

text \<open>
  A worker created with the dependency \<^verbatim>\<open>a/\<close>, which \<^verbatim>\<open>path.join\<close> resolves to the
  directory of \<open>a\<close>.
\<close>

definition hive_slash :: hive where
  "hive_slash =
     snd (spawnWaiting env_up ''k'' ''task k'' ''a/'' no_options
       (echoStatus ''COMPLETE'' ''a'' hive_a))"

text \<open>The worker is removed after the first poll.\<close>

definition world_removed :: wait_world where
  "world_removed =
     \<lparr>startTime = 1000, fs_at = (\<lambda>k. if k < 1 then hive_a else empty_hive),
      env_at = (\<lambda>k. env_up), dur = (\<lambda>k. 1), late = (\<lambda>k. 0)\<rparr>"

text \<open>The wall clock is set back by 200 ms while the first timer runs.\<close>

definition world_clock_back :: wait_world where
  "world_clock_back =
     \<lparr>startTime = 1000, fs_at = (\<lambda>k. hive_a), env_at = (\<lambda>k. env_up),
      dur = (\<lambda>k. 1), late = (\<lambda>k. if k < 1 then - 200 else 0)\<rparr>"

text \<open>Docker is up for every start.\<close>

definition world_up :: "string \<Rightarrow> env" where
  "world_up n = env_up"

text \<open>Docker is down while \<open>b\<close> is started, and up otherwise.\<close>

definition world_b_down :: "string \<Rightarrow> env" where
  "world_b_down n = (if n = ''b'' then env_down else env_up)"

text \<open>Docker is down while \<open>w1\<close> is started, and up otherwise.\<close>

definition world_w1_down :: "string \<Rightarrow> env" where
  "world_w1_down n = (if n = ''w1'' then env_down else env_up)"

section \<open>Properties\<close>

subsection \<open>Writes and the effect of one start\<close>


lemma minionDir_writeDir: "minionDir (writeDir n d s) k = (if k = n then Some d else minionDir s k)"
  by (simp add: minionDir_def writeDir_def update_conv')

lemma minionDir_writeMeta:
  "minionDir s n = Some d \<Longrightarrow>
   minionDir (writeMeta n m s) k = (if k = n then Some (d\<lparr>meta_json := Some m\<rparr>) else minionDir s k)"
  by (simp add: writeMeta_def minionDir_writeDir)

lemma start_shape:
  "(\<exists>err. start e n opts s = (Inl err, s)) \<or>
   (\<exists>d m out.
      minionDir s n = Some d \<and> meta_json d = Some m \<and>
      (status m = ''pending'' \<or> status m = ''waiting'') \<and>
      TASK_md d \<noteq> None \<and> ensureImage e \<and>
      docker e (Run n (envVars opts)
         (resourceArgs (js_or (o_memory opts) (memory m)) (js_or (o_cpus opts) (cpus m)))) = Some out \<and>
      start e n opts s =
         (Inr (n, trim out),
          writeMeta n (m\<lparr>containerId := Some (trim out), status := ''running'',
                         startedAt := Some (now e),
                         memory := js_or (o_memory opts) (memory m),
                         cpus := js_or (o_cpus opts) (cpus m)\<rparr>) s))"
  unfolding start_def Let_def
  by (auto split: option.splits simp: js_or_def)

lemma start_cases:
  obtains (fail) err where "start e n opts s = (Inl err, s)"
  | (ok) d m out where
      "minionDir s n = Some d" "meta_json d = Some m"
      "status m = ''pending'' \<or> status m = ''waiting''"
      "TASK_md d \<noteq> None" "ensureImage e"
      "docker e (Run n (envVars opts)
         (resourceArgs (js_or (o_memory opts) (memory m)) (js_or (o_cpus opts) (cpus m)))) = Some out"
      "start e n opts s =
         (Inr (n, trim out),
          writeMeta n (m\<lparr>containerId := Some (trim out), status := ''running'',
                         startedAt := Some (now e),
                         memory := js_or (o_memory opts) (memory m),
                         cpus := js_or (o_cpus opts) (cpus m)\<rparr>) s)"
  using start_shape [of e n opts s] by blast

lemma start_fail_state: "fst (start e n opts s) = Inl err \<Longrightarrow> snd (start e n opts s) = s"
  by (rule start_cases [of e n opts s]) auto

lemma start_other: "k \<noteq> n \<Longrightarrow> minionDir (snd (start e n opts s)) k = minionDir s k"
  by (rule start_cases [of e n opts s]) (auto simp: minionDir_writeMeta)

lemma start_signal: "signal (snd (start e n opts s)) k = signal s k"
  by (rule start_cases [of e n opts s]) (auto simp: minionDir_writeMeta signal_def)

lemma start_STATUS:
  "(case minionDir (snd (start e n opts s)) k of None \<Rightarrow> None | Some d \<Rightarrow> STATUS d) =
   (case minionDir s k of None \<Rightarrow> None | Some d \<Rightarrow> STATUS d)"
  by (rule start_cases [of e n opts s]) (auto simp: minionDir_writeMeta)

lemma dependencySTATUS_start:
  "dependencySTATUS e' (snd (start e n opts s)) p = dependencySTATUS e' s p"
  by (simp add: dependencySTATUS_def start_STATUS split: place.splits)

lemma start_cong:
  "minionDir s n = minionDir s2 n \<Longrightarrow> fst (start e n opts s) = fst (start e n opts s2)"
  by (auto simp add: start_def Let_def split: option.splits)

lemma start_ok_meta:
  assumes "fst (start e n opts s) = Inr r"
  shows "\<exists>m. metaOf (snd (start e n opts s)) n = Some m \<and> status m = ''running'' \<and>
             containerId m \<noteq> None \<and> startedAt m = Some (now e)"
  using assms
  by (rule_tac start_cases [of e n opts s]) (auto simp: minionDir_writeMeta metaOf_def)


subsection \<open>The loop of the scheduler\<close>

lemma startLoop_Cons:
  "startLoop E opts (m # ms) started s =
     (if ready E s m then
        (case start (E (name (l_meta m))) (name (l_meta m)) opts s of
           (Inl err, s') \<Rightarrow> (Inl err, s')
         | (Inr r, s') \<Rightarrow>
             startLoop E opts ms (started @ [(name (l_meta m), the (dependsOn (l_meta m)))]) s')
      else startLoop E opts ms started s)"
  by (simp add: ready_def split: option.splits)

lemma ready_start: "ready E (snd (start e n opts s)) m = ready E s m"
  by (simp add: ready_def dependencySTATUS_start)

lemma startLoop_signal: "signal (snd (startLoop E opts ms started s)) k = signal s k"
proof (induction ms arbitrary: s started)
  case Nil
  then show ?case by simp
next
  case (Cons m ms)
  show ?case
  proof (cases "ready E s m")
    case False
    then show ?thesis using Cons.IH by (simp add: startLoop_Cons del: startLoop.simps)
  next
    case True
    obtain res s' where st: "start (E (name (l_meta m))) (name (l_meta m)) opts s = (res, s')"
      by (cases "start (E (name (l_meta m))) (name (l_meta m)) opts s")
    have sig: "signal s' k = signal s k"
      using start_signal [of "E (name (l_meta m))" "name (l_meta m)" opts s k] st by simp
    show ?thesis
    proof (cases res)
      case (Inl err)
      then show ?thesis using True st sig by (simp add: startLoop_Cons del: startLoop.simps)
    next
      case (Inr r)
      then show ?thesis using True st sig Cons.IH [of _ s']
        by (simp add: startLoop_Cons del: startLoop.simps)
    qed
  qed
qed

lemma startLoop_untouched:
  "n \<notin> set (map (\<lambda>m. name (l_meta m)) (filter (ready E s) ms)) \<Longrightarrow>
   minionDir (snd (startLoop E opts ms started s)) n = minionDir s n"
proof (induction ms arbitrary: s started)
  case Nil
  then show ?case by simp
next
  case (Cons m ms)
  show ?case
  proof (cases "ready E s m")
    case False
    then show ?thesis using Cons by (simp add: startLoop_Cons del: startLoop.simps)
  next
    case True
    then have ne: "n \<noteq> name (l_meta m)" using Cons.prems by auto
    obtain res s' where st: "start (E (name (l_meta m))) (name (l_meta m)) opts s = (res, s')"
      by (cases "start (E (name (l_meta m))) (name (l_meta m)) opts s")
    have same: "minionDir s' n = minionDir s n"
      using start_other [OF ne, of "E (name (l_meta m))" opts s] st by simp
    have "ready E s' = ready E s"
      using ready_start [of E "E (name (l_meta m))" "name (l_meta m)" opts s] st by (intro ext) simp
    then have rdy: "filter (ready E s') ms = filter (ready E s) ms" by simp
    show ?thesis
    proof (cases res)
      case (Inl err)
      then show ?thesis using True st same by (simp add: startLoop_Cons del: startLoop.simps)
    next
      case (Inr r)
      have "n \<notin> set (map (\<lambda>m. name (l_meta m)) (filter (ready E s') ms))"
        using Cons.prems True rdy by auto
      from Cons.IH [OF this] show ?thesis using True st same Inr
        by (simp add: startLoop_Cons del: startLoop.simps)
    qed
  qed
qed

lemma startLoop_started:
  "fst (startLoop E opts ms started s) = Inr st \<Longrightarrow>
   st = started @ map (\<lambda>m. (name (l_meta m), the (dependsOn (l_meta m)))) (filter (ready E s) ms)"
proof (induction ms arbitrary: s started)
  case Nil
  then show ?case by simp
next
  case (Cons m ms)
  show ?case
  proof (cases "ready E s m")
    case False
    then show ?thesis using Cons by (simp add: startLoop_Cons del: startLoop.simps)
  next
    case True
    obtain res s' where st: "start (E (name (l_meta m))) (name (l_meta m)) opts s = (res, s')"
      by (cases "start (E (name (l_meta m))) (name (l_meta m)) opts s")
    have "ready E s' = ready E s"
      using ready_start [of E "E (name (l_meta m))" "name (l_meta m)" opts s] st by (intro ext) simp
    then have rdy: "filter (ready E s') ms = filter (ready E s) ms" by simp
    show ?thesis
    proof (cases res)
      case (Inl err)
      then show ?thesis using True st Cons.prems by (simp add: startLoop_Cons del: startLoop.simps)
    next
      case (Inr r)
      then have "fst (startLoop E opts ms
                  (started @ [(name (l_meta m), the (dependsOn (l_meta m)))]) s') = Inr st"
        using True st Cons.prems by (simp add: startLoop_Cons del: startLoop.simps)
      from Cons.IH [OF this] show ?thesis using True rdy by simp
    qed
  qed
qed

lemma starts_cong: "minionDir s n = minionDir s2 n \<Longrightarrow> starts e n opts s = starts e n opts s2"
  by (simp add: starts_def start_cong [of s n s2])

lemma startLoop_succeeds:
  assumes "distinct (map (\<lambda>m. name (l_meta m)) ms)"
    and "\<forall>m\<in>set ms. ready E s m \<longrightarrow> starts (E (name (l_meta m))) (name (l_meta m)) opts s"
  shows "(\<exists>st. fst (startLoop E opts ms started s) = Inr st) \<and>
         (\<forall>m\<in>set ms. ready E s m \<longrightarrow>
            (\<exists>mm. metaOf (snd (startLoop E opts ms started s)) (name (l_meta m)) = Some mm \<and>
                  status mm = ''running'' \<and> containerId mm \<noteq> None \<and>
                  startedAt mm = Some (now (E (name (l_meta m))))))"
  using assms
proof (induction ms arbitrary: s started)
  case Nil
  then show ?case by simp
next
  case (Cons m ms)
  let ?n = "name (l_meta m)"
  have dist: "distinct (map (\<lambda>m. name (l_meta m)) ms)" and notin: "?n \<notin> set (map (\<lambda>m. name (l_meta m)) ms)"
    using Cons.prems(1) by auto
  show ?case
  proof (cases "ready E s m")
    case False
    have "\<forall>m\<in>set ms. ready E s m \<longrightarrow> starts (E (name (l_meta m))) (name (l_meta m)) opts s"
      using Cons.prems(2) by simp
    from Cons.IH [OF dist this, of started] show ?thesis using False
      by (simp add: startLoop_Cons del: startLoop.simps)
  next
    case True
    then have ok: "starts (E ?n) ?n opts s" using Cons.prems(2) by simp
    then obtain r s' where st: "start (E ?n) ?n opts s = (Inr r, s')"
      by (cases "start (E ?n) ?n opts s") (auto simp: starts_def split: sum.splits)
    have rdy: "\<And>x. ready E s' x = ready E s x"
      using ready_start [of E "E ?n" ?n opts s] st by simp
    have other: "\<And>k. k \<noteq> ?n \<Longrightarrow> minionDir s' k = minionDir s k"
      using start_other [of _ ?n "E ?n" opts s] st by simp
    have hyp: "\<forall>x\<in>set ms. ready E s' x \<longrightarrow> starts (E (name (l_meta x))) (name (l_meta x)) opts s'"
    proof (intro ballI impI)
      fix x assume x: "x \<in> set ms" and "ready E s' x"
      then have "starts (E (name (l_meta x))) (name (l_meta x)) opts s"
        using Cons.prems(2) rdy by simp
      moreover have "name (l_meta x) \<in> set (map (\<lambda>m. name (l_meta m)) ms)" using x by simp
      then have "name (l_meta x) \<noteq> ?n" using notin by metis
      moreover note this
      ultimately show "starts (E (name (l_meta x))) (name (l_meta x)) opts s'"
        using starts_cong [of s' "name (l_meta x)" s] other by simp
    qed
    let ?st = "started @ [(?n, the (dependsOn (l_meta m)))]"
    note IH = Cons.IH [OF dist hyp, of ?st]
    have loop: "startLoop E opts (m # ms) started s = startLoop E opts ms ?st s'"
      using True st by (simp add: startLoop_Cons del: startLoop.simps)
    have "?n \<notin> set (map (\<lambda>m. name (l_meta m)) (filter (ready E s') ms))"
      using notin by auto
    from startLoop_untouched [OF this, of opts ?st]
    have keep: "minionDir (snd (startLoop E opts ms ?st s')) ?n = minionDir s' ?n" .
    have "\<exists>mm. metaOf s' ?n = Some mm \<and> status mm = ''running'' \<and> containerId mm \<noteq> None \<and>
            startedAt mm = Some (now (E ?n))"
      using start_ok_meta [of "E ?n" ?n opts s r] st by simp
    then have head: "\<exists>mm. metaOf (snd (startLoop E opts ms ?st s')) ?n = Some mm \<and>
        status mm = ''running'' \<and> containerId mm \<noteq> None \<and> startedAt mm = Some (now (E ?n))"
      using keep by (simp add: metaOf_def)
    show ?thesis
      unfolding loop using IH head rdy by auto
  qed
qed


lemma startLoop_Inr_starts:
  assumes "distinct (map (\<lambda>m. name (l_meta m)) ms)"
    and "fst (startLoop E opts ms started s) = Inr st"
  shows "\<forall>m\<in>set ms. ready E s m \<longrightarrow> starts (E (name (l_meta m))) (name (l_meta m)) opts s"
  using assms
proof (induction ms arbitrary: s started)
  case Nil
  then show ?case by simp
next
  case (Cons m ms)
  let ?n = "name (l_meta m)"
  have dist: "distinct (map (\<lambda>m. name (l_meta m)) ms)" and notin: "?n \<notin> set (map (\<lambda>m. name (l_meta m)) ms)"
    using Cons.prems(1) by auto
  show ?case
  proof (cases "ready E s m")
    case False
    then have "fst (startLoop E opts ms started s) = Inr st"
      using Cons.prems(2) by (simp add: startLoop_Cons del: startLoop.simps)
    from Cons.IH [OF dist this] show ?thesis using False by simp
  next
    case True
    obtain res s' where st: "start (E ?n) ?n opts s = (res, s')"
      by (cases "start (E ?n) ?n opts s")
    show ?thesis
    proof (cases res)
      case (Inl err)
      then show ?thesis using True st Cons.prems(2) by (simp add: startLoop_Cons del: startLoop.simps)
    next
      case (Inr r)
      then have head: "starts (E ?n) ?n opts s" using st by (simp add: starts_def)
      have "ready E s' = ready E s"
        using ready_start [of E "E ?n" ?n opts s] st by (intro ext) simp
      have other: "\<And>k. k \<noteq> ?n \<Longrightarrow> minionDir s' k = minionDir s k"
        using start_other [of _ ?n "E ?n" opts s] st by simp
      have "fst (startLoop E opts ms (started @ [(?n, the (dependsOn (l_meta m)))]) s') = Inr st"
        using True st Inr Cons.prems(2) by (simp add: startLoop_Cons del: startLoop.simps)
      from Cons.IH [OF dist this]
      have tl: "\<forall>x\<in>set ms. ready E s' x \<longrightarrow> starts (E (name (l_meta x))) (name (l_meta x)) opts s'" .
      have "\<forall>x\<in>set ms. ready E s x \<longrightarrow> starts (E (name (l_meta x))) (name (l_meta x)) opts s"
      proof (intro ballI impI)
        fix x assume x: "x \<in> set ms" and "ready E s x"
        then have a: "starts (E (name (l_meta x))) (name (l_meta x)) opts s'"
          using tl \<open>ready E s' = ready E s\<close> by simp
        have "name (l_meta x) \<in> set (map (\<lambda>m. name (l_meta m)) ms)" using x by simp
        then have "name (l_meta x) \<noteq> ?n" using notin by metis
        then show "starts (E (name (l_meta x))) (name (l_meta x)) opts s"
          using a starts_cong [of s' "name (l_meta x)" s] other by simp
      qed
      then show ?thesis using head by simp
    qed
  qed
qed

lemma startLoop_Inl:
  assumes "distinct (map (\<lambda>m. name (l_meta m)) ms)"
    and "fst (startLoop E opts ms started s) = Inl err"
  shows "\<exists>x\<in>set ms. ready E s x \<and>
           fst (start (E (name (l_meta x))) (name (l_meta x)) opts s) = Inl err \<and>
           minionDir (snd (startLoop E opts ms started s)) (name (l_meta x)) =
             minionDir s (name (l_meta x))"
  using assms
proof (induction ms arbitrary: s started)
  case Nil
  then show ?case by simp
next
  case (Cons m ms)
  let ?n = "name (l_meta m)"
  have dist: "distinct (map (\<lambda>m. name (l_meta m)) ms)"
    and notin: "?n \<notin> set (map (\<lambda>m. name (l_meta m)) ms)"
    using Cons.prems(1) by auto
  show ?case
  proof (cases "ready E s m")
    case False
    then have "fst (startLoop E opts ms started s) = Inl err"
      using Cons.prems(2) by (simp add: startLoop_Cons del: startLoop.simps)
    from Cons.IH [OF dist this] show ?thesis using False
      by (simp add: startLoop_Cons del: startLoop.simps)
  next
    case True
    obtain res s' where st: "start (E ?n) ?n opts s = (res, s')"
      by (cases "start (E ?n) ?n opts s")
    show ?thesis
    proof (cases res)
      case (Inl err')
      have loop: "startLoop E opts (m # ms) started s = (Inl err', s')"
        using True st Inl by (simp add: startLoop_Cons del: startLoop.simps)
      then have e: "err' = err" using Cons.prems(2) by simp
      have "s' = s" using start_fail_state [of "E ?n" ?n opts s err'] st Inl by simp
      then show ?thesis using True st Inl e loop by simp
    next
      case (Inr r)
      let ?st = "started @ [(?n, the (dependsOn (l_meta m)))]"
      have loop: "startLoop E opts (m # ms) started s = startLoop E opts ms ?st s'"
        using True st Inr by (simp add: startLoop_Cons del: startLoop.simps)
      then have "fst (startLoop E opts ms ?st s') = Inl err" using Cons.prems(2) by simp
      from Cons.IH [OF dist this] obtain x where x: "x \<in> set ms" "ready E s' x"
        "fst (start (E (name (l_meta x))) (name (l_meta x)) opts s') = Inl err"
        "minionDir (snd (startLoop E opts ms ?st s')) (name (l_meta x)) =
           minionDir s' (name (l_meta x))"
        by blast
      have "name (l_meta x) \<in> set (map (\<lambda>m. name (l_meta m)) ms)" using x(1) by simp
      then have ne: "name (l_meta x) \<noteq> ?n" using notin by metis
      have same: "minionDir s' (name (l_meta x)) = minionDir s (name (l_meta x))"
        using start_other [OF ne, of "E ?n" opts s] st by simp
      have r: "ready E s x"
        using ready_start [of E "E ?n" ?n opts s x] st x(2) by simp
      have f: "fst (start (E (name (l_meta x))) (name (l_meta x)) opts s) = Inl err"
        using start_cong [of s' "name (l_meta x)" s] same x(3) by simp
      show ?thesis unfolding loop using x(1,4) r f same by auto
    qed
  qed
qed

lemma startLoop_append:
  "startLoop E opts (pre @ rest) started s =
     (case startLoop E opts pre started s of
        (Inl err, s') \<Rightarrow> (Inl err, s')
      | (Inr st, s') \<Rightarrow> startLoop E opts rest st s')"
proof (induction pre arbitrary: s started)
  case Nil
  then show ?case by simp
next
  case (Cons m pre)
  show ?case
    using Cons.IH
    by (simp add: startLoop_Cons del: startLoop.simps split: prod.splits sum.splits)
qed

subsection \<open>The snapshot of a well-formed registry\<close>

lemma listEntry_names:
  "named_ok p \<Longrightarrow>
   map (\<lambda>m. name (l_meta m)) (listEntry e p) = (if meta_json (snd p) = None then [] else [fst p])"
  by (auto simp: listEntry_def named_ok_def split: option.splits)

lemma list_names:
  "list_all named_ok al \<Longrightarrow>
   map (\<lambda>m. name (l_meta m)) (concat (map (listEntry e) al)) =
   map fst (filter (\<lambda>p. meta_json (snd p) \<noteq> None) al)"
  by (induction al) (auto simp: listEntry_names)

lemma set_insert_entry: "set (insert_entry p qs) = insert p (set qs)"
  by (induction qs) auto

lemma set_readdirSync: "set (readdirSync al) = set al"
  by (induction al) (simp_all add: set_insert_entry)

lemma distinct_insert_entry:
  "distinct (map fst (insert_entry p qs)) \<longleftrightarrow> fst p \<notin> fst ` set qs \<and> distinct (map fst qs)"
  by (induction qs) (auto simp: set_insert_entry)

lemma distinct_readdirSync: "distinct (map fst (readdirSync al)) = distinct (map fst al)"
  by (induction al) (simp_all add: distinct_insert_entry set_readdirSync)

lemma list_all_readdirSync: "list_all P (readdirSync al) = list_all P al"
  by (simp add: list_all_iff set_readdirSync)

lemma list_op_distinct: "wf s \<Longrightarrow> distinct (map (\<lambda>m. name (l_meta m)) (list_op e s))"
  by (simp add: wf_def list_op_def list_names list_all_readdirSync distinct_readdirSync
      distinct_map_filter)

lemma list_op_mem:
  assumes "wf s" and "x \<in> set (list_op e s)"
  shows "metaOf s (name (l_meta x)) = Some (l_meta x)"
proof -
  from assms(2) obtain p where p: "p \<in> set (minions s)" and x: "x \<in> set (listEntry e p)"
    by (auto simp: list_op_def set_readdirSync)
  from x have m: "meta_json (snd p) = Some (l_meta x)"
    by (auto simp: listEntry_def split: option.splits)
  have "named_ok p" using assms(1) p by (simp add: wf_def list_all_iff)
  then have n: "name (l_meta x) = fst p" using m by (simp add: named_ok_def)
  have "map_of (minions s) (fst p) = Some (snd p)"
    using assms(1) p by (simp add: wf_def)
  then show ?thesis using m n by (simp add: metaOf_def minionDir_def)
qed

lemma list_op_complete:
  assumes "wf s" and "metaOf s n = Some mm"
  shows "\<exists>x\<in>set (list_op e s). l_meta x = mm \<and> name (l_meta x) = n"
proof -
  from assms(2) obtain d where d: "map_of (minions s) n = Some d" and m: "meta_json d = Some mm"
    by (auto simp: metaOf_def minionDir_def split: option.splits)
  from d have p: "(n, d) \<in> set (minions s)" by (rule map_of_SomeD)
  then have "named_ok (n, d)" using assms(1) by (auto simp: wf_def list_all_iff)
  then have nm: "name mm = n" using m by (simp add: named_ok_def)
  obtain x where x: "listEntry e (n, d) = [x]" and lx: "l_meta x = mm"
    using m by (simp add: listEntry_def)
  have "x \<in> set (list_op e s)" using p x by (force simp: list_op_def set_readdirSync)
  then show ?thesis using lx nm by auto
qed

lemma list_op_depends:
  assumes "wf s" and "x \<in> set (list_op e s)" and "truthy (dependsOn (l_meta x))"
  shows "plain_name (the (dependsOn (l_meta x)))"
proof -
  from assms(2) obtain p where p: "p \<in> set (minions s)" and x: "x \<in> set (listEntry e p)"
    by (auto simp: list_op_def set_readdirSync)
  from x have m: "meta_json (snd p) = Some (l_meta x)"
    by (auto simp: listEntry_def split: option.splits)
  have "depends_ok p" using assms(1) p by (simp add: wf_def list_all_iff)
  then show ?thesis using m assms(3)
    by (auto simp: depends_ok_def truthy_def split: option.splits)
qed

lemma splitSlash_plain: "CHR ''/'' \<notin> set d \<Longrightarrow> splitSlash d = [d]"
  by (induction d) auto

lemma locate_plain: "plain_name d \<Longrightarrow> locate d = MinionDir d"
  by (simp add: plain_name_def locate_def splitSlash_plain)

lemma dependencySTATUS_plain:
  "plain_name d \<Longrightarrow> map_option trim (dependencySTATUS e s d) = signal s d"
  by (simp add: dependencySTATUS_def locate_plain signal_def split: option.splits)

lemma ready_iff_eligible:
  assumes "wf s" and "x \<in> set (list_op e s)"
  shows "ready E s x \<longleftrightarrow> eligible s (name (l_meta x))"
proof -
  have m: "metaOf s (name (l_meta x)) = Some (l_meta x)" using list_op_mem [OF assms] .
  show ?thesis
  proof (cases "truthy (dependsOn (l_meta x))")
    case False
    then show ?thesis using m by (simp add: eligible_def ready_def)
  next
    case True
    have "plain_name (the (dependsOn (l_meta x)))" using list_op_depends [OF assms True] .
    then show ?thesis using m True by (simp add: eligible_def ready_def dependencySTATUS_plain)
  qed
qed

lemma eligible_iff_ready:
  assumes "wf s"
  shows "eligible s n \<longleftrightarrow> (\<exists>x\<in>set (list_op e s). name (l_meta x) = n \<and> ready E s x)"
proof
  assume el: "eligible s n"
  then obtain mm where mm: "metaOf s n = Some mm"
    by (auto simp: eligible_def split: option.splits)
  from list_op_complete [OF assms mm, of e] obtain x where
    x: "x \<in> set (list_op e s)" "name (l_meta x) = n" by auto
  then have "ready E s x" using ready_iff_eligible [OF assms x(1), of E] el by simp
  then show "\<exists>x\<in>set (list_op e s). name (l_meta x) = n \<and> ready E s x" using x by auto
next
  assume "\<exists>x\<in>set (list_op e s). name (l_meta x) = n \<and> ready E s x"
  then obtain x where x: "x \<in> set (list_op e s)" "name (l_meta x) = n" "ready E s x" by auto
  then show "eligible s n" using ready_iff_eligible [OF assms x(1), of E] by simp
qed


lemma pass_spec:
  assumes "wf s"
  shows pass_untouched:
      "\<not> eligible s n \<Longrightarrow>
       minionDir (snd (checkAndStartDependents e0 E opts s)) n = minionDir s n"
    and pass_returns:
      "(\<exists>st. fst (checkAndStartDependents e0 E opts s) = Inr st) \<longleftrightarrow>
       (\<forall>k. eligible s k \<longrightarrow> starts (E k) k opts s)"
    and pass_started:
      "fst (checkAndStartDependents e0 E opts s) = Inr st \<Longrightarrow>
       distinct (map fst st) \<and>
       set st = {(k, d). eligible s k \<and> map_option dependsOn (metaOf s k) = Some (Some d)}"
    and pass_running:
      "fst (checkAndStartDependents e0 E opts s) = Inr st \<Longrightarrow> eligible s n \<Longrightarrow>
       statusOf (snd (checkAndStartDependents e0 E opts s)) n = Some ''running'' \<and>
       handleOf (snd (checkAndStartDependents e0 E opts s)) n \<noteq> None"
    and pass_throws:
      "fst (checkAndStartDependents e0 E opts s) = Inl err \<Longrightarrow>
       \<exists>k. eligible s k \<and> fst (start (E k) k opts s) = Inl err \<and>
           minionDir (snd (checkAndStartDependents e0 E opts s)) k = minionDir s k"
proof -
  let ?ms = "list_op e0 s"
  let ?nm = "\<lambda>m. name (l_meta m)"
  let ?res = "startLoop E opts ?ms [] s"
  have pass: "checkAndStartDependents e0 E opts s = ?res"
    by (simp add: checkAndStartDependents_def)
  have dist: "distinct (map ?nm ?ms)" using assms by (rule list_op_distinct)
  have elig: "\<And>n. eligible s n \<longleftrightarrow> (\<exists>x\<in>set ?ms. ?nm x = n \<and> ready E s x)"
    using eligible_iff_ready [OF assms] by simp
  have names: "set (map ?nm (filter (ready E s) ?ms)) = {n. eligible s n}"
    using elig by auto
  have started: "\<And>st. fst ?res = Inr st \<Longrightarrow>
      st = map (\<lambda>m. (?nm m, the (dependsOn (l_meta m)))) (filter (ready E s) ?ms)"
    using startLoop_started [of E opts ?ms "[]" s] by simp
  have fsts: "\<And>st. fst ?res = Inr st \<Longrightarrow> map fst st = map ?nm (filter (ready E s) ?ms)"
    using started by (simp add: comp_def)
  show "minionDir (snd (checkAndStartDependents e0 E opts s)) n = minionDir s n"
    if "\<not> eligible s n"
  proof -
    have "n \<notin> set (map ?nm (filter (ready E s) ?ms))" using that names by simp
    from startLoop_untouched [OF this] show ?thesis unfolding pass .
  qed
  show "(\<exists>st. fst (checkAndStartDependents e0 E opts s) = Inr st) \<longleftrightarrow>
       (\<forall>k. eligible s k \<longrightarrow> starts (E k) k opts s)"
    unfolding pass
  proof
    assume "\<exists>st. fst ?res = Inr st"
    then obtain st where "fst ?res = Inr st" by blast
    from startLoop_Inr_starts [OF dist this]
    show "\<forall>n. eligible s n \<longrightarrow> starts (E n) n opts s" using elig by auto
  next
    assume "\<forall>n. eligible s n \<longrightarrow> starts (E n) n opts s"
    then have "\<forall>m\<in>set ?ms. ready E s m \<longrightarrow> starts (E (?nm m)) (?nm m) opts s"
      using elig by auto
    from startLoop_succeeds [OF dist this] show "\<exists>st. fst ?res = Inr st" by blast
  qed
  show "distinct (map fst st) \<and>
       set st = {(k, d). eligible s k \<and> map_option dependsOn (metaOf s k) = Some (Some d)}"
    if "fst (checkAndStartDependents e0 E opts s) = Inr st"
  proof
    have st: "fst ?res = Inr st" using that unfolding pass .
    have f: "map fst st = map ?nm (filter (ready E s) ?ms)" using fsts [OF st] .
    show "distinct (map fst st)" unfolding f using dist by (rule distinct_map_filter)
    have eq: "st = map (\<lambda>m. (?nm m, the (dependsOn (l_meta m)))) (filter (ready E s) ?ms)"
      using started [OF st] .
    show "set st = {(k, d). eligible s k \<and> map_option dependsOn (metaOf s k) = Some (Some d)}"
    proof (intro set_eqI iffI)
      fix p assume "p \<in> set st"
      then obtain x where x: "x \<in> set ?ms" "ready E s x" and p: "p = (?nm x, the (dependsOn (l_meta x)))"
        unfolding eq by auto
      have m: "metaOf s (?nm x) = Some (l_meta x)" using list_op_mem [OF assms x(1)] .
      have "eligible s (?nm x)" using elig x by blast
      moreover have "dependsOn (l_meta x) = Some (the (dependsOn (l_meta x)))"
        using x(2) by (auto simp: ready_def truthy_def split: option.splits)
      ultimately show "p \<in> {(k, d). eligible s k \<and> map_option dependsOn (metaOf s k) = Some (Some d)}"
        using p m by simp
    next
      fix p assume "p \<in> {(k, d). eligible s k \<and> map_option dependsOn (metaOf s k) = Some (Some d)}"
      then obtain k d where p: "p = (k, d)" and k: "eligible s k"
        and d: "map_option dependsOn (metaOf s k) = Some (Some d)" by auto
      from k obtain x where x: "x \<in> set ?ms" "?nm x = k" "ready E s x" using elig by auto
      have "metaOf s k = Some (l_meta x)" using list_op_mem [OF assms x(1)] x(2) by simp
      then have "the (dependsOn (l_meta x)) = d" using d by simp
      then show "p \<in> set st" unfolding eq p using x by force
    qed
  qed
  show "statusOf (snd (checkAndStartDependents e0 E opts s)) n = Some ''running'' \<and>
       handleOf (snd (checkAndStartDependents e0 E opts s)) n \<noteq> None"
    if "fst (checkAndStartDependents e0 E opts s) = Inr st" and n: "eligible s n"
  proof -
    have st: "fst ?res = Inr st" using that(1) unfolding pass .
    from n obtain x where x: "x \<in> set ?ms" "?nm x = n" "ready E s x" using elig by auto
    from startLoop_Inr_starts [OF dist st]
    have "\<forall>m\<in>set ?ms. ready E s m \<longrightarrow> starts (E (?nm m)) (?nm m) opts s" .
    from startLoop_succeeds [OF dist this, of "[]"] x
    obtain mm where "metaOf (snd ?res) n = Some mm" "status mm = ''running''" "containerId mm \<noteq> None"
      by blast
    then show ?thesis unfolding pass by (simp add: statusOf_def handleOf_def)
  qed
  show "\<exists>k. eligible s k \<and> fst (start (E k) k opts s) = Inl err \<and>
           minionDir (snd (checkAndStartDependents e0 E opts s)) k = minionDir s k"
    if "fst (checkAndStartDependents e0 E opts s) = Inl err"
  proof -
    have "fst ?res = Inl err" using that unfolding pass .
    from startLoop_Inl [OF dist this] obtain x where x: "x \<in> set ?ms" "ready E s x"
      "fst (start (E (?nm x)) (?nm x) opts s) = Inl err"
      "minionDir (snd ?res) (?nm x) = minionDir s (?nm x)"
      by blast
    have "eligible s (?nm x)" using elig x(1,2) by blast
    then show ?thesis unfolding pass using x(3,4) by blast
  qed
qed

text \<open>
  C1 (amended). On a well-formed registry (no directory twice, every \<^verbatim>\<open>meta.json\<close>
  named after its directory, every \<^verbatim>\<open>dependsOn\<close> that is set a plain directory name) a
  scheduler pass leaves every worker that is not eligible (status \<^verbatim>\<open>waiting\<close>,
  \<^verbatim>\<open>dependsOn\<close> set, terminal signal of the dependency \<^verbatim>\<open>COMPLETE\<close>) exactly as it
  was, whatever docker does: a worker whose dependency has written no terminal signal is
  never promoted and stays \<^verbatim>\<open>waiting\<close>. The pass returns its list exactly when the
  \<^verbatim>\<open>start\<close> of every eligible worker succeeds, and then the list holds exactly the
  eligible workers, each once with its dependency, and each of them is \<^verbatim>\<open>running\<close>
  with a container id. Otherwise the pass throws: the error is the one that the
  \<^verbatim>\<open>start\<close> of an eligible worker throws, and that worker is left exactly as it was,
  not promoted.
\<close>

theorem pass_promotes_eligible:
  assumes "wf s"
  shows "(\<forall>n. \<not> eligible s n \<longrightarrow>
            minionDir (snd (checkAndStartDependents e0 E opts s)) n = minionDir s n) \<and>
         ((\<exists>st. fst (checkAndStartDependents e0 E opts s) = Inr st) \<longleftrightarrow>
            (\<forall>n. eligible s n \<longrightarrow> starts (E n) n opts s)) \<and>
         (\<forall>st. fst (checkAndStartDependents e0 E opts s) = Inr st \<longrightarrow>
            distinct (map fst st) \<and>
            set st = {(n, d). eligible s n \<and> map_option dependsOn (metaOf s n) = Some (Some d)} \<and>
            (\<forall>n. eligible s n \<longrightarrow>
               statusOf (snd (checkAndStartDependents e0 E opts s)) n = Some ''running'' \<and>
               handleOf (snd (checkAndStartDependents e0 E opts s)) n \<noteq> None)) \<and>
         (\<forall>err. fst (checkAndStartDependents e0 E opts s) = Inl err \<longrightarrow>
            (\<exists>n. eligible s n \<and> fst (start (E n) n opts s) = Inl err \<and>
                 minionDir (snd (checkAndStartDependents e0 E opts s)) n = minionDir s n))"
proof (intro conjI allI impI)
  fix n assume "\<not> eligible s n"
  then show "minionDir (snd (checkAndStartDependents e0 E opts s)) n = minionDir s n"
    by (rule pass_untouched [OF assms])
next
  show "(\<exists>st. fst (checkAndStartDependents e0 E opts s) = Inr st) \<longleftrightarrow>
        (\<forall>n. eligible s n \<longrightarrow> starts (E n) n opts s)"
    by (rule pass_returns [OF assms])
next
  fix st assume st: "fst (checkAndStartDependents e0 E opts s) = Inr st"
  show "distinct (map fst st)" using pass_started [OF assms st] by simp
  show "set st = {(n, d). eligible s n \<and> map_option dependsOn (metaOf s n) = Some (Some d)}"
    using pass_started [OF assms st] by simp
  fix n assume n: "eligible s n"
  show "statusOf (snd (checkAndStartDependents e0 E opts s)) n = Some ''running''"
    using pass_running [OF assms st n] by simp
  show "handleOf (snd (checkAndStartDependents e0 E opts s)) n \<noteq> None"
    using pass_running [OF assms st n] by simp
next
  fix err assume "fst (checkAndStartDependents e0 E opts s) = Inl err"
  then show "\<exists>n. eligible s n \<and> fst (start (E n) n opts s) = Inl err \<and>
                 minionDir (snd (checkAndStartDependents e0 E opts s)) n = minionDir s n"
    by (rule pass_throws [OF assms])
qed


theorem pass_promotes_eligible_witness:
  "wf hive_chain \<and>
   \<not> eligible hive_chain ''c'' \<and>
   minionDir (snd (checkAndStartDependents env_up world_up no_options hive_chain)) ''c'' =
     minionDir hive_chain ''c'' \<and>
   eligible hive_chain ''b'' \<and>
   fst (checkAndStartDependents env_up world_up no_options hive_chain) = Inr [(''b'', ''a'')] \<and>
   statusOf (snd (checkAndStartDependents env_up world_up no_options hive_chain)) ''b'' =
     Some ''running'' \<and>
   fst (checkAndStartDependents env_up world_b_down no_options hive_chain) = Inl DockerError \<and>
   (\<exists>n. eligible hive_chain n \<and>
        fst (start (world_b_down n) n no_options hive_chain) = Inl DockerError \<and>
        minionDir (snd (checkAndStartDependents env_up world_b_down no_options hive_chain)) n =
          minionDir hive_chain n)"
proof -
  have w: "wf hive_chain" by code_simp
  have c: "\<not> eligible hive_chain ''c''" by code_simp
  have b: "eligible hive_chain ''b''" by code_simp
  have r: "fst (checkAndStartDependents env_up world_up no_options hive_chain) = Inr [(''b'', ''a'')]"
    by code_simp
  note T = pass_promotes_eligible [OF w, of env_up world_up no_options]
  from T have "\<forall>n. \<not> eligible hive_chain n \<longrightarrow>
      minionDir (snd (checkAndStartDependents env_up world_up no_options hive_chain)) n =
      minionDir hive_chain n" by (rule conjunct1)
  with c have u: "minionDir (snd (checkAndStartDependents env_up world_up no_options hive_chain)) ''c'' =
     minionDir hive_chain ''c''" by blast
  from T r b have s: "statusOf (snd (checkAndStartDependents env_up world_up no_options hive_chain)) ''b'' =
     Some ''running''" by blast
  have d: "fst (checkAndStartDependents env_up world_b_down no_options hive_chain) = Inl DockerError"
    by code_simp
  note T2 = pass_promotes_eligible [OF w, of env_up world_b_down no_options]
  from T2 d have t: "\<exists>n. eligible hive_chain n \<and>
        fst (start (world_b_down n) n no_options hive_chain) = Inl DockerError \<and>
        minionDir (snd (checkAndStartDependents env_up world_b_down no_options hive_chain)) n =
          minionDir hive_chain n" by blast
  show ?thesis using w c u b r s d t by (intro conjI)
qed

theorem pass_skips_eligible_counterexample:
  "wf hive_pair \<and> eligible hive_pair ''b'' \<and>
   fst (checkAndStartDependents env_up world_b_down no_options hive_pair) = Inl DockerError \<and>
   statusOf (snd (checkAndStartDependents env_up world_b_down no_options hive_pair)) ''b'' =
     Some ''waiting''"
  by code_simp


subsection \<open>A start that throws\<close>

lemma ready_startLoop: "ready E (snd (startLoop E opts ms started s)) x = ready E s x"
proof (induction ms arbitrary: s started)
  case Nil
  then show ?case by simp
next
  case (Cons m ms)
  show ?case
  proof (cases "ready E s m")
    case False
    then show ?thesis using Cons.IH by (simp add: startLoop_Cons del: startLoop.simps)
  next
    case True
    obtain res s' where st: "start (E (name (l_meta m))) (name (l_meta m)) opts s = (res, s')"
      by (cases "start (E (name (l_meta m))) (name (l_meta m)) opts s")
    have rdy: "ready E s' x = ready E s x"
      using ready_start [of E "E (name (l_meta m))" "name (l_meta m)" opts s x] st by simp
    show ?thesis
    proof (cases res)
      case (Inl err)
      then show ?thesis using True st rdy by (simp add: startLoop_Cons del: startLoop.simps)
    next
      case (Inr r)
      then show ?thesis using True st rdy Cons.IH [of _ s']
        by (simp add: startLoop_Cons del: startLoop.simps)
    qed
  qed
qed

lemma startLoop_abort:
  assumes dist: "distinct (map (\<lambda>m. name (l_meta m)) (pre @ x # post))"
    and pre: "\<forall>p\<in>set pre. ready E s p \<longrightarrow> starts (E (name (l_meta p))) (name (l_meta p)) opts s"
    and x: "ready E s x"
    and err: "fst (start (E (name (l_meta x))) (name (l_meta x)) opts s) = Inl err"
  shows "fst (startLoop E opts (pre @ x # post) started s) = Inl err"
    and "\<forall>p\<in>set (x # post).
           minionDir (snd (startLoop E opts (pre @ x # post) started s)) (name (l_meta p)) =
           minionDir s (name (l_meta p))"
    and "\<forall>p\<in>set pre. ready E s p \<longrightarrow>
           statusOf (snd (startLoop E opts (pre @ x # post) started s)) (name (l_meta p)) =
           Some ''running''"
proof -
  let ?nm = "\<lambda>m. name (l_meta m)"
  have dpre: "distinct (map ?nm pre)" using dist by simp
  obtain r1 s1 where l1: "startLoop E opts pre started s = (r1, s1)"
    by (cases "startLoop E opts pre started s")
  note S = startLoop_succeeds [OF dpre pre, of started]
  from S l1 obtain st1 where r1: "r1 = Inr st1" by auto
  have run: "\<forall>p\<in>set pre. ready E s p \<longrightarrow> (\<exists>mm. metaOf s1 (?nm p) = Some mm \<and> status mm = ''running'')"
  proof (intro ballI impI)
    fix p assume "p \<in> set pre" "ready E s p"
    with S obtain mm where "metaOf (snd (startLoop E opts pre started s)) (?nm p) = Some mm"
      "status mm = ''running''" by blast
    then show "\<exists>mm. metaOf s1 (?nm p) = Some mm \<and> status mm = ''running''" using l1 by simp
  qed
  have rdy: "ready E s1 x" using ready_startLoop [of E opts pre started s x] l1 x by simp
  have keep: "\<And>k. k \<notin> set (map ?nm pre) \<Longrightarrow> minionDir s1 k = minionDir s k"
  proof -
    fix k assume "k \<notin> set (map ?nm pre)"
    then have "k \<notin> set (map ?nm (filter (ready E s) pre))" by auto
    from startLoop_untouched [OF this, of opts started] l1 show "minionDir s1 k = minionDir s k"
      by simp
  qed
  have xn: "?nm x \<notin> set (map ?nm pre)" using dist by auto
  have "fst (start (E (?nm x)) (?nm x) opts s1) = Inl err"
    using start_cong [of s1 "?nm x" s] keep [OF xn] err by simp
  then have "start (E (?nm x)) (?nm x) opts s1 = (Inl err, s1)"
    using start_fail_state [of "E (?nm x)" "?nm x" opts s1 err]
    by (cases "start (E (?nm x)) (?nm x) opts s1") simp
  then have tail: "startLoop E opts (x # post) st1 s1 = (Inl err, s1)"
    using rdy by (simp add: startLoop_Cons del: startLoop.simps)
  have whole: "startLoop E opts (pre @ x # post) started s = (Inl err, s1)"
    using l1 r1 tail by (simp add: startLoop_append)
  show "fst (startLoop E opts (pre @ x # post) started s) = Inl err"
    using whole by simp
  show "\<forall>p\<in>set (x # post).
           minionDir (snd (startLoop E opts (pre @ x # post) started s)) (?nm p) =
           minionDir s (?nm p)"
  proof
    fix p assume "p \<in> set (x # post)"
    then have "?nm p \<in> set (map ?nm (x # post))" by (metis imageI set_map)
    then have "?nm p \<notin> set (map ?nm pre)" using dist by auto
    from keep [OF this] show "minionDir (snd (startLoop E opts (pre @ x # post) started s)) (?nm p) =
           minionDir s (?nm p)" using whole by simp
  qed
  show "\<forall>p\<in>set pre. ready E s p \<longrightarrow>
           statusOf (snd (startLoop E opts (pre @ x # post) started s)) (?nm p) = Some ''running''"
    using run whole by (auto simp: statusOf_def)
qed

text \<open>
  C3 (amended). In a well-formed registry (no directory twice, every \<^verbatim>\<open>meta.json\<close>
  named after its directory, every \<^verbatim>\<open>dependsOn\<close> that is set a plain directory name)
  a \<^verbatim>\<open>start\<close> that throws for an eligible worker, while the \<^verbatim>\<open>start\<close> of every
  eligible worker listed before it succeeds, ends the pass at once: the pass throws that
  error, the workers listed before it that were eligible are running, the worker itself
  and every worker listed after it are left exactly as they were (eligible or not), so
  the remaining eligible workers are not attempted. The listing is sorted by name.
\<close>

theorem failing_start_aborts_pass:
  assumes "wf s"
    and "listing e0 s = pre @ n # post"
    and "eligible s n"
    and "fst (start (E n) n opts s) = Inl err"
    and "\<forall>k\<in>set pre. eligible s k \<longrightarrow> starts (E k) k opts s"
  shows "fst (checkAndStartDependents e0 E opts s) = Inl err \<and>
         minionDir (snd (checkAndStartDependents e0 E opts s)) n = minionDir s n \<and>
         (\<forall>k\<in>set post. minionDir (snd (checkAndStartDependents e0 E opts s)) k = minionDir s k) \<and>
         (\<forall>k\<in>set pre. eligible s k \<longrightarrow>
            statusOf (snd (checkAndStartDependents e0 E opts s)) k = Some ''running'')"
proof -
  let ?nm = "\<lambda>m. name (l_meta m)"
  from assms(2) obtain lpre x lpost where L: "list_op e0 s = lpre @ x # lpost"
    and pre: "map ?nm lpre = pre" and n: "?nm x = n" and post: "map ?nm lpost = post"
    unfolding listing_def by (auto simp: map_eq_append_conv map_eq_Cons_conv)
  have dist: "distinct (map ?nm (lpre @ x # lpost))"
    using list_op_distinct [OF assms(1), of e0] L by simp
  have mem: "\<And>p. p \<in> set (lpre @ x # lpost) \<Longrightarrow> ready E s p \<longleftrightarrow> eligible s (?nm p)"
    using ready_iff_eligible [OF assms(1), of _ e0 E] L by simp
  have h1: "\<forall>p\<in>set lpre. ready E s p \<longrightarrow> starts (E (?nm p)) (?nm p) opts s"
  proof (intro ballI impI)
    fix p assume p: "p \<in> set lpre" and "ready E s p"
    then have "eligible s (?nm p)" using mem by simp
    moreover have "?nm p \<in> set pre" using p pre by (metis imageI set_map)
    ultimately show "starts (E (?nm p)) (?nm p) opts s" using assms(5) by simp
  qed
  have h2: "ready E s x" using mem [of x] n assms(3) by simp
  have h3: "fst (start (E (?nm x)) (?nm x) opts s) = Inl err" using n assms(4) by simp
  note R = startLoop_abort [OF dist h1 h2 h3, of "[]"]
  have pass: "checkAndStartDependents e0 E opts s = startLoop E opts (lpre @ x # lpost) [] s"
    by (simp add: checkAndStartDependents_def L)
  show ?thesis
  proof (intro conjI ballI impI)
    show "fst (checkAndStartDependents e0 E opts s) = Inl err" unfolding pass by (rule R(1))
    show "minionDir (snd (checkAndStartDependents e0 E opts s)) n = minionDir s n"
      unfolding pass using R(2) n by auto
  next
    fix k assume "k \<in> set post"
    then obtain p where "p \<in> set lpost" "?nm p = k" using post by auto
    then show "minionDir (snd (checkAndStartDependents e0 E opts s)) k = minionDir s k"
      unfolding pass using R(2) by auto
  next
    fix k assume "k \<in> set pre" and e: "eligible s k"
    then obtain p where p: "p \<in> set lpre" "?nm p = k" using pre by auto
    then have "ready E s p" using mem [of p] e by simp
    then show "statusOf (snd (checkAndStartDependents e0 E opts s)) k = Some ''running''"
      unfolding pass using R(3) p by auto
  qed
qed

theorem failing_start_aborts_pass_witness:
  "wf hive_fan \<and> listing env_up hive_fan = [''a''] @ ''w1'' # [''w2''] \<and>
   eligible hive_fan ''w1'' \<and>
   fst (start (world_w1_down ''w1'') ''w1'' no_options hive_fan) = Inl DockerError \<and>
   \<not> eligible hive_fan ''a'' \<and>
   fst (checkAndStartDependents env_up world_w1_down no_options hive_fan) = Inl DockerError \<and>
   minionDir (snd (checkAndStartDependents env_up world_w1_down no_options hive_fan)) ''w2'' =
     minionDir hive_fan ''w2''"
proof -
  have w: "wf hive_fan" by code_simp
  have l: "listing env_up hive_fan = [''a''] @ ''w1'' # [''w2'']" by code_simp
  have e: "eligible hive_fan ''w1''" by code_simp
  have f: "fst (start (world_w1_down ''w1'') ''w1'' no_options hive_fan) = Inl DockerError"
    by code_simp
  have a: "\<not> eligible hive_fan ''a''" by code_simp
  then have p: "\<forall>k\<in>set [''a'']. eligible hive_fan k \<longrightarrow>
      starts (world_w1_down k) k no_options hive_fan" by simp
  note T = failing_start_aborts_pass [OF w l e f p]
  from T have r: "fst (checkAndStartDependents env_up world_w1_down no_options hive_fan) = Inl DockerError"
    by (rule conjunct1)
  from T have "\<forall>k\<in>set [''w2''].
      minionDir (snd (checkAndStartDependents env_up world_w1_down no_options hive_fan)) k =
      minionDir hive_fan k" by blast
  then have u: "minionDir (snd (checkAndStartDependents env_up world_w1_down no_options hive_fan)) ''w2'' =
     minionDir hive_fan ''w2''" by simp
  show ?thesis using w l e f a r u by (intro conjI)
qed

theorem later_dependent_not_attempted_counterexample:
  "eligible hive_fan ''w1'' \<and> eligible hive_fan ''w2'' \<and>
   \<not> starts (world_w1_down ''w1'') ''w1'' no_options hive_fan \<and>
   starts (world_w1_down ''w2'') ''w2'' no_options hive_fan \<and>
   fst (checkAndStartDependents env_up world_w1_down no_options hive_fan) = Inl DockerError \<and>
   statusOf (snd (checkAndStartDependents env_up world_w1_down no_options hive_fan)) ''w2'' =
     Some ''waiting'' \<and>
   handleOf (snd (checkAndStartDependents env_up world_w1_down no_options hive_fan)) ''w2'' = None"
  by code_simp


subsection \<open>Chains\<close>

lemma eligible_waiting_on:
  "eligible s n \<longleftrightarrow>
   statusOf s n = Some ''waiting'' \<and>
   (\<exists>d. map_option dependsOn (metaOf s n) = Some (Some d) \<and> d \<noteq> [] \<and>
        signal s d = Some ''COMPLETE'')"
  by (auto simp: eligible_def statusOf_def truthy_def split: option.splits)

text \<open>
  C2 (amended). In a well-formed registry (no directory twice, every \<^verbatim>\<open>meta.json\<close>
  named after its directory, every \<^verbatim>\<open>dependsOn\<close> that is set a plain directory name)
  let \<open>B\<close> wait for \<open>A\<close> and \<open>C\<close> wait for \<open>B\<close>,
  with the terminal signal of \<open>A\<close> \<^verbatim>\<open>COMPLETE\<close> and that of \<open>B\<close> not. Whatever docker
  does, one pass leaves \<open>C\<close> exactly as it was, \<^verbatim>\<open>waiting\<close>. The pass returns its list
  exactly when the \<^verbatim>\<open>start\<close> of every eligible worker succeeds; the list then holds
  \<open>B\<close> with its dependency \<open>A\<close> and does not hold \<open>C\<close>, and \<open>B\<close> is \<^verbatim>\<open>running\<close>. In any
  later registry where \<open>C\<close> still depends on \<open>B\<close>, a pass that changes \<open>C\<close> found the
  terminal signal of \<open>B\<close> to be \<^verbatim>\<open>COMPLETE\<close>; and a pass that returns its list while
  \<open>C\<close> waits for \<open>B\<close> and that signal is \<^verbatim>\<open>COMPLETE\<close> leaves \<open>C\<close> \<^verbatim>\<open>running\<close>.
\<close>

theorem chain_one_hop_per_pass:
  assumes "wf s"
    and "statusOf s B = Some ''waiting''"
    and "map_option dependsOn (metaOf s B) = Some (Some A)" and "A \<noteq> []"
    and "signal s A = Some ''COMPLETE''"
    and "statusOf s C = Some ''waiting''"
    and "map_option dependsOn (metaOf s C) = Some (Some B)"
    and "signal s B \<noteq> Some ''COMPLETE''"
  shows "minionDir (snd (checkAndStartDependents e0 E opts s)) C = minionDir s C \<and>
         statusOf (snd (checkAndStartDependents e0 E opts s)) C = Some ''waiting'' \<and>
         ((\<exists>st. fst (checkAndStartDependents e0 E opts s) = Inr st) \<longleftrightarrow>
            (\<forall>n. eligible s n \<longrightarrow> starts (E n) n opts s)) \<and>
         (\<forall>st. fst (checkAndStartDependents e0 E opts s) = Inr st \<longrightarrow>
            (B, A) \<in> set st \<and> C \<notin> fst ` set st \<and>
            statusOf (snd (checkAndStartDependents e0 E opts s)) B = Some ''running'' \<and>
            handleOf (snd (checkAndStartDependents e0 E opts s)) B \<noteq> None) \<and>
         (\<forall>e2 E2 opts2 s2.
            wf s2 \<and> map_option dependsOn (metaOf s2 C) = Some (Some B) \<and>
            minionDir (snd (checkAndStartDependents e2 E2 opts2 s2)) C \<noteq> minionDir s2 C \<longrightarrow>
            signal s2 B = Some ''COMPLETE'') \<and>
         (\<forall>e2 E2 opts2 s2 st2.
            wf s2 \<and> statusOf s2 C = Some ''waiting'' \<and>
            map_option dependsOn (metaOf s2 C) = Some (Some B) \<and> B \<noteq> [] \<and>
            signal s2 B = Some ''COMPLETE'' \<and>
            fst (checkAndStartDependents e2 E2 opts2 s2) = Inr st2 \<longrightarrow>
            statusOf (snd (checkAndStartDependents e2 E2 opts2 s2)) C = Some ''running'')"
proof -
  have eB: "eligible s B" using assms(2-5) by (auto simp: eligible_waiting_on)
  have nC: "\<not> eligible s C" using assms(7,8) by (auto simp: eligible_waiting_on)
  have keep: "minionDir (snd (checkAndStartDependents e0 E opts s)) C = minionDir s C"
    using nC by (rule pass_untouched [OF assms(1)])
  then have stat: "statusOf (snd (checkAndStartDependents e0 E opts s)) C = Some ''waiting''"
    using assms(6) by (simp add: statusOf_def metaOf_def)
  have ret: "(\<exists>st. fst (checkAndStartDependents e0 E opts s) = Inr st) \<longleftrightarrow>
            (\<forall>n. eligible s n \<longrightarrow> starts (E n) n opts s)"
    by (rule pass_returns [OF assms(1)])
  have hop: "\<forall>st. fst (checkAndStartDependents e0 E opts s) = Inr st \<longrightarrow>
            (B, A) \<in> set st \<and> C \<notin> fst ` set st \<and>
            statusOf (snd (checkAndStartDependents e0 E opts s)) B = Some ''running'' \<and>
            handleOf (snd (checkAndStartDependents e0 E opts s)) B \<noteq> None"
  proof (intro allI impI)
    fix st assume st: "fst (checkAndStartDependents e0 E opts s) = Inr st"
    have set: "set st = {(k, d). eligible s k \<and> map_option dependsOn (metaOf s k) = Some (Some d)}"
      using pass_started [OF assms(1) st] by simp
    have "(B, A) \<in> set st" unfolding set using eB assms(3) by simp
    moreover have "C \<notin> fst ` set st" unfolding set using nC by auto
    ultimately show "(B, A) \<in> set st \<and> C \<notin> fst ` set st \<and>
            statusOf (snd (checkAndStartDependents e0 E opts s)) B = Some ''running'' \<and>
            handleOf (snd (checkAndStartDependents e0 E opts s)) B \<noteq> None"
      using pass_running [OF assms(1) st eB] by simp
  qed
  have later: "\<forall>e2 E2 opts2 s2.
            wf s2 \<and> map_option dependsOn (metaOf s2 C) = Some (Some B) \<and>
            minionDir (snd (checkAndStartDependents e2 E2 opts2 s2)) C \<noteq> minionDir s2 C \<longrightarrow>
            signal s2 B = Some ''COMPLETE''"
  proof (intro allI impI)
    fix e2 E2 opts2 s2
    assume h: "wf s2 \<and> map_option dependsOn (metaOf s2 C) = Some (Some B) \<and>
            minionDir (snd (checkAndStartDependents e2 E2 opts2 s2)) C \<noteq> minionDir s2 C"
    then have "eligible s2 C" using pass_untouched [of s2 C e2 E2 opts2] by blast
    then show "signal s2 B = Some ''COMPLETE''" using h by (auto simp: eligible_waiting_on)
  qed
  have promoted: "\<forall>e2 E2 opts2 s2 st2.
            wf s2 \<and> statusOf s2 C = Some ''waiting'' \<and>
            map_option dependsOn (metaOf s2 C) = Some (Some B) \<and> B \<noteq> [] \<and>
            signal s2 B = Some ''COMPLETE'' \<and>
            fst (checkAndStartDependents e2 E2 opts2 s2) = Inr st2 \<longrightarrow>
            statusOf (snd (checkAndStartDependents e2 E2 opts2 s2)) C = Some ''running''"
  proof (intro allI impI)
    fix e2 E2 opts2 s2 st2
    assume h: "wf s2 \<and> statusOf s2 C = Some ''waiting'' \<and>
            map_option dependsOn (metaOf s2 C) = Some (Some B) \<and> B \<noteq> [] \<and>
            signal s2 B = Some ''COMPLETE'' \<and>
            fst (checkAndStartDependents e2 E2 opts2 s2) = Inr st2"
    then have "eligible s2 C" by (auto simp: eligible_waiting_on)
    then show "statusOf (snd (checkAndStartDependents e2 E2 opts2 s2)) C = Some ''running''"
      using pass_running [of s2 e2 E2 opts2 st2 C] h by blast
  qed
  show ?thesis using keep stat ret hop later promoted by (intro conjI)
qed

theorem chain_one_hop_per_pass_witness:
  "wf hive_chain \<and>
   statusOf hive_chain ''b'' = Some ''waiting'' \<and>
   map_option dependsOn (metaOf hive_chain ''b'') = Some (Some ''a'') \<and>
   signal hive_chain ''a'' = Some ''COMPLETE'' \<and>
   statusOf hive_chain ''c'' = Some ''waiting'' \<and>
   map_option dependsOn (metaOf hive_chain ''c'') = Some (Some ''b'') \<and>
   signal hive_chain ''b'' \<noteq> Some ''COMPLETE'' \<and>
   fst (checkAndStartDependents env_up world_up no_options hive_chain) = Inr [(''b'', ''a'')] \<and>
   statusOf (snd (checkAndStartDependents env_up world_up no_options hive_chain)) ''b'' =
     Some ''running'' \<and>
   statusOf (snd (checkAndStartDependents env_up world_up no_options hive_chain)) ''c'' =
     Some ''waiting''"
proof -
  have w: "wf hive_chain" by code_simp
  have b1: "statusOf hive_chain ''b'' = Some ''waiting''" by code_simp
  have b2: "map_option dependsOn (metaOf hive_chain ''b'') = Some (Some ''a'')" by code_simp
  have a0: "''a'' \<noteq> []" by simp
  have a1: "signal hive_chain ''a'' = Some ''COMPLETE''" by code_simp
  have c1: "statusOf hive_chain ''c'' = Some ''waiting''" by code_simp
  have c2: "map_option dependsOn (metaOf hive_chain ''c'') = Some (Some ''b'')" by code_simp
  have b3: "signal hive_chain ''b'' \<noteq> Some ''COMPLETE''" by code_simp
  have r: "fst (checkAndStartDependents env_up world_up no_options hive_chain) = Inr [(''b'', ''a'')]"
    by code_simp
  note T = chain_one_hop_per_pass [OF w b1 b2 a0 a1 c1 c2 b3, of env_up world_up no_options]
  from T have sc: "statusOf (snd (checkAndStartDependents env_up world_up no_options hive_chain)) ''c'' =
     Some ''waiting''" by blast
  from T r have sb: "statusOf (snd (checkAndStartDependents env_up world_up no_options hive_chain)) ''b'' =
     Some ''running''" by blast
  show ?thesis using w b1 b2 a1 c1 c2 b3 r sb sc by (intro conjI)
qed

theorem chain_head_not_promoted_counterexample:
  "wf hive_chain \<and>
   statusOf hive_chain ''b'' = Some ''waiting'' \<and>
   map_option dependsOn (metaOf hive_chain ''b'') = Some (Some ''a'') \<and>
   signal hive_chain ''a'' = Some ''COMPLETE'' \<and>
   statusOf hive_chain ''c'' = Some ''waiting'' \<and>
   map_option dependsOn (metaOf hive_chain ''c'') = Some (Some ''b'') \<and>
   signal hive_chain ''b'' = None \<and>
   fst (checkAndStartDependents env_up world_b_down no_options hive_chain) = Inl DockerError \<and>
   statusOf (snd (checkAndStartDependents env_up world_b_down no_options hive_chain)) ''b'' =
     Some ''waiting''"
  by code_simp


subsection \<open>Start\<close>

lemma js_or_resolved: "js_or a b = resolved a b"
  by (auto simp: js_or_def resolved_def truthy_def split: option.splits)

text \<open>
  C4. For a worker with a metadata record, \<^verbatim>\<open>start\<close> throws the wrong-status error
  when the status is neither \<^verbatim>\<open>pending\<close> nor \<^verbatim>\<open>waiting\<close>, and the missing-task error
  when the status is one of the two and \<^verbatim>\<open>TASK.md\<close> is absent; either way nothing is
  written. Whenever it returns, the status was \<^verbatim>\<open>pending\<close> or \<^verbatim>\<open>waiting\<close>, the task
  existed, the container was run with each resource limit resolved as the override if
  given and the stored value otherwise, and the metadata now has status \<^verbatim>\<open>running\<close>,
  \<^verbatim>\<open>startedAt\<close> stamped with the clock, the container id docker printed, and the
  resolved limits. It returns whenever status and task are right and docker runs the
  container.
\<close>

theorem start_contract:
  assumes "minionDir s n = Some d" and "meta_json d = Some m"
  shows "(status m \<noteq> ''pending'' \<and> status m \<noteq> ''waiting'' \<longrightarrow>
            start e n opts s = (Inl InvalidTransition, s)) \<and>
         ((status m = ''pending'' \<or> status m = ''waiting'') \<and> TASK_md d = None \<longrightarrow>
            start e n opts s = (Inl MissingTask, s)) \<and>
         (\<forall>r s'. start e n opts s = (Inr r, s') \<longrightarrow>
            (status m = ''pending'' \<or> status m = ''waiting'') \<and> TASK_md d \<noteq> None \<and>
            (\<exists>out.
               docker e (Run n (envVars opts)
                 (resourceArgs (resolved (o_memory opts) (memory m))
                               (resolved (o_cpus opts) (cpus m)))) = Some out \<and>
               r = (n, trim out) \<and>
               minionDir s' n =
                 Some (d\<lparr>meta_json :=
                          Some (m\<lparr>containerId := Some (trim out), status := ''running'',
                                   startedAt := Some (now e),
                                   memory := resolved (o_memory opts) (memory m),
                                   cpus := resolved (o_cpus opts) (cpus m)\<rparr>)\<rparr>))) \<and>
         ((status m = ''pending'' \<or> status m = ''waiting'') \<and> TASK_md d \<noteq> None \<and>
          ensureImage e \<and>
          docker e (Run n (envVars opts)
            (resourceArgs (resolved (o_memory opts) (memory m))
                          (resolved (o_cpus opts) (cpus m)))) \<noteq> None \<longrightarrow>
            (\<exists>r s'. start e n opts s = (Inr r, s')))"
proof (intro conjI allI impI)
  assume "status m \<noteq> ''pending'' \<and> status m \<noteq> ''waiting''"
  then show "start e n opts s = (Inl InvalidTransition, s)"
    using assms by (simp add: start_def)
next
  assume "(status m = ''pending'' \<or> status m = ''waiting'') \<and> TASK_md d = None"
  then show "start e n opts s = (Inl MissingTask, s)"
    using assms by (auto simp add: start_def)
next
  fix r s' assume ok: "start e n opts s = (Inr r, s')"
  from start_shape [of e n opts s] ok assms
  obtain out where st: "status m = ''pending'' \<or> status m = ''waiting''"
    and tk: "TASK_md d \<noteq> None"
    and run: "docker e (Run n (envVars opts)
         (resourceArgs (js_or (o_memory opts) (memory m)) (js_or (o_cpus opts) (cpus m)))) = Some out"
    and eq: "start e n opts s =
         (Inr (n, trim out),
          writeMeta n (m\<lparr>containerId := Some (trim out), status := ''running'',
                         startedAt := Some (now e),
                         memory := js_or (o_memory opts) (memory m),
                         cpus := js_or (o_cpus opts) (cpus m)\<rparr>) s)"
    by auto
  show "status m = ''pending'' \<or> status m = ''waiting''" by (rule st)
  show "TASK_md d \<noteq> None" by (rule tk)
  have "r = (n, trim out)" using ok eq by simp
  moreover have "s' = writeMeta n (m\<lparr>containerId := Some (trim out), status := ''running'',
                         startedAt := Some (now e),
                         memory := js_or (o_memory opts) (memory m),
                         cpus := js_or (o_cpus opts) (cpus m)\<rparr>) s" using ok eq by simp
  ultimately show "\<exists>out.
               docker e (Run n (envVars opts)
                 (resourceArgs (resolved (o_memory opts) (memory m))
                               (resolved (o_cpus opts) (cpus m)))) = Some out \<and>
               r = (n, trim out) \<and>
               minionDir s' n =
                 Some (d\<lparr>meta_json :=
                          Some (m\<lparr>containerId := Some (trim out), status := ''running'',
                                   startedAt := Some (now e),
                                   memory := resolved (o_memory opts) (memory m),
                                   cpus := resolved (o_cpus opts) (cpus m)\<rparr>)\<rparr>)"
    using run assms(1) by (auto simp: js_or_resolved minionDir_writeMeta)
next
  assume "(status m = ''pending'' \<or> status m = ''waiting'') \<and> TASK_md d \<noteq> None \<and>
          ensureImage e \<and>
          docker e (Run n (envVars opts)
            (resourceArgs (resolved (o_memory opts) (memory m))
                          (resolved (o_cpus opts) (cpus m)))) \<noteq> None"
  then show "\<exists>r s'. start e n opts s = (Inr r, s')"
    using assms by (auto simp add: start_def Let_def js_or_resolved)
qed

theorem start_contract_witness:
  "minionDir hive_pair ''b'' = Some (the (minionDir hive_pair ''b'')) \<and>
   meta_json (the (minionDir hive_pair ''b'')) = Some (the (metaOf hive_pair ''b'')) \<and>
   status (the (metaOf hive_pair ''b'')) = ''waiting'' \<and>
   fst (start env_up ''b'' memory_1g hive_pair) = Inr (''b'', ''c0ffee'') \<and>
   map_option memory (metaOf (snd (start env_up ''b'' memory_1g hive_pair)) ''b'') = Some (Some ''1g'') \<and>
   status (the (metaOf hive_a ''a'')) = ''running'' \<and>
   start env_up ''a'' no_options hive_a = (Inl InvalidTransition, hive_a)"
proof -
  have "minionDir hive_pair ''b'' \<noteq> None" by code_simp
  then have d: "minionDir hive_pair ''b'' = Some (the (minionDir hive_pair ''b''))" by simp
  have "meta_json (the (minionDir hive_pair ''b'')) \<noteq> None" by code_simp
  then have m: "meta_json (the (minionDir hive_pair ''b'')) = Some (the (metaOf hive_pair ''b''))"
    using d by (auto simp: metaOf_def split: option.splits)
  have w: "status (the (metaOf hive_pair ''b'')) = ''waiting''" by code_simp
  have r: "fst (start env_up ''b'' memory_1g hive_pair) = Inr (''b'', ''c0ffee'')" by code_simp
  have g: "map_option memory (metaOf (snd (start env_up ''b'' memory_1g hive_pair)) ''b'') = Some (Some ''1g'')"
    by code_simp
  have "minionDir hive_a ''a'' \<noteq> None" by code_simp
  then have d2: "minionDir hive_a ''a'' = Some (the (minionDir hive_a ''a''))" by simp
  have "meta_json (the (minionDir hive_a ''a'')) \<noteq> None" by code_simp
  then have m2: "meta_json (the (minionDir hive_a ''a'')) = Some (the (metaOf hive_a ''a''))"
    using d2 by (auto simp: metaOf_def split: option.splits)
  have s2: "status (the (metaOf hive_a ''a'')) = ''running''" by code_simp
  then have ne: "status (the (metaOf hive_a ''a'')) \<noteq> ''pending'' \<and>
      status (the (metaOf hive_a ''a'')) \<noteq> ''waiting''" by simp
  from start_contract [OF d2 m2, of env_up no_options] ne
  have t: "start env_up ''a'' no_options hive_a = (Inl InvalidTransition, hive_a)" by blast
  show ?thesis using d m w r g s2 t by (intro conjI)
qed

subsection \<open>Kill\<close>

text \<open>
  C5. For a worker with a metadata record, \<^verbatim>\<open>kill\<close> returns (it never throws), sets the
  status to \<^verbatim>\<open>killed\<close> and stamps \<^verbatim>\<open>killedAt\<close> with the clock, leaving every other
  field and file as it was, whatever docker answers to \<^verbatim>\<open>stop\<close> and \<^verbatim>\<open>rm\<close>: the
  environment is arbitrary, so both may fail.
\<close>

theorem kill_always_killed:
  assumes "minionDir s n = Some d" and "meta_json d = Some m"
  shows "fst (kill e n s) = Inr (n, ''killed'') \<and>
         minionDir (snd (kill e n s)) n =
           Some (d\<lparr>meta_json := Some (m\<lparr>status := ''killed'', killedAt := Some (now e)\<rparr>)\<rparr>) \<and>
         statusOf (snd (kill e n s)) n = Some ''killed'' \<and>
         map_option killedAt (metaOf (snd (kill e n s)) n) = Some (Some (now e))"
  using assms by (simp add: kill_def Let_def minionDir_writeMeta statusOf_def metaOf_def)

theorem kill_always_killed_witness:
  "minionDir hive_a ''a'' = Some (the (minionDir hive_a ''a'')) \<and>
   meta_json (the (minionDir hive_a ''a'')) = Some (the (metaOf hive_a ''a'')) \<and>
   tryStopRm env_down ''a'' = False \<and>
   fst (kill env_down ''a'' hive_a) = Inr (''a'', ''killed'') \<and>
   statusOf (snd (kill env_down ''a'' hive_a)) ''a'' = Some ''killed'' \<and>
   map_option killedAt (metaOf (snd (kill env_down ''a'' hive_a)) ''a'') = Some (Some (now env_down))"
proof -
  have "minionDir hive_a ''a'' \<noteq> None" by code_simp
  then have d: "minionDir hive_a ''a'' = Some (the (minionDir hive_a ''a''))" by simp
  have "meta_json (the (minionDir hive_a ''a'')) \<noteq> None" by code_simp
  then have m: "meta_json (the (minionDir hive_a ''a'')) = Some (the (metaOf hive_a ''a''))"
    using d by (auto simp: metaOf_def split: option.splits)
  have f: "tryStopRm env_down ''a'' = False" by code_simp
  note T = kill_always_killed [OF d m, of env_down]
  show ?thesis using d m f T by (intro conjI) simp_all
qed


subsection \<open>Names and creation\<close>

lemma validateName_spec: "validateName n = None \<longleftrightarrow> spec_name_ok n"
  by (cases n) (auto simp: validateName_def spec_name_ok_def list_all_iff)

lemma validateName_InvalidName: "validateName n = Some err \<Longrightarrow> InvalidName err"
  by (auto simp: validateName_def InvalidName_def split: if_splits)

lemma spawn_invalid:
  "validateName n = Some err \<Longrightarrow> spawn e n t opts s = (Inl err, s)"
  by (simp add: spawn_def)

lemma spawn_valid_shape:
  assumes "validateName n = None"
  shows "spawn e n t opts s = (Inl AlreadyExists, s) \<and> existsDir s n \<or>
         \<not> existsDir s n \<and> existsDir (snd (spawn e n t opts s)) n \<and>
         (fst (spawn e n t opts s) = Inl DockerError \<and>
            \<not> (ensureImage e \<and>
               docker e (Run n (envVars opts) (resourceArgs (o_memory opts) (o_cpus opts))) \<noteq> None) \<or>
          (\<exists>out. fst (spawn e n t opts s) = Inr (n, trim out) \<and> ensureImage e \<and>
             docker e (Run n (envVars opts) (resourceArgs (o_memory opts) (o_cpus opts))) = Some out \<and>
             statusOf (snd (spawn e n t opts s)) n = Some ''running''))"
  using assms
  by (auto simp: spawn_def Let_def existsDir_def minionDir_writeDir minionDir_writeMeta
      writeMeta_def statusOf_def metaOf_def newDir_def split: option.splits)

lemma rename_invalid_iff:
  "(\<exists>err. fst (rename e old n s) = Inl err \<and> InvalidName err) \<longleftrightarrow> validateName n \<noteq> None"
  by (auto simp: rename_def Let_def InvalidName_def dest: validateName_InvalidName
      split: option.splits list.splits if_splits)

lemma clone_invalid_iff:
  "(\<exists>err. fst (clone e src n copts s) = Inl err \<and> InvalidName err) \<longleftrightarrow> validateName n \<noteq> None"
  by (auto simp: clone_def Let_def InvalidName_def dest: validateName_InvalidName
      split: option.splits if_splits)

lemma spawn_invalid_iff:
  "(\<exists>err. fst (spawn e n t opts s) = Inl err \<and> InvalidName err) \<longleftrightarrow> validateName n \<noteq> None"
proof (cases "validateName n")
  case None
  from spawn_valid_shape [OF this, of e t opts s] show ?thesis
    using None by (auto simp: InvalidName_def)
next
  case (Some err)
  then show ?thesis using validateName_InvalidName [OF Some] by (simp add: spawn_invalid)
qed


text \<open>
  C6 (amended). \<^verbatim>\<open>spawn\<close>, \<^verbatim>\<open>rename\<close> and \<^verbatim>\<open>clone\<close> throw an invalid-name error
  exactly when the (target) name violates the pattern or is longer than 128 characters.
  With a valid name \<^verbatim>\<open>spawn\<close> throws the already-exists error when the directory
  exists, writing nothing. With a valid fresh name it creates the directory and then
  runs the container: it returns exactly when the image is there or builds and
  \<^verbatim>\<open>docker run\<close> succeeds, and throws the docker error otherwise. Either way the
  directory exists afterwards, so every second \<^verbatim>\<open>spawn\<close> of the name throws the
  already-exists error.
\<close>

theorem create_rules:
  "((\<exists>err. fst (spawn e n t opts s) = Inl err \<and> InvalidName err) \<longleftrightarrow> \<not> spec_name_ok n) \<and>
   ((\<exists>err. fst (rename e old n s) = Inl err \<and> InvalidName err) \<longleftrightarrow> \<not> spec_name_ok n) \<and>
   ((\<exists>err. fst (clone e src n copts s) = Inl err \<and> InvalidName err) \<longleftrightarrow> \<not> spec_name_ok n) \<and>
   (spec_name_ok n \<and> existsDir s n \<longrightarrow> spawn e n t opts s = (Inl AlreadyExists, s)) \<and>
   (spec_name_ok n \<and> \<not> existsDir s n \<longrightarrow>
      ((\<exists>cid. fst (spawn e n t opts s) = Inr (n, cid)) \<longleftrightarrow>
         ensureImage e \<and>
         docker e (Run n (envVars opts) (resourceArgs (o_memory opts) (o_cpus opts))) \<noteq> None) \<and>
      (fst (spawn e n t opts s) = Inl DockerError \<longleftrightarrow>
         \<not> (ensureImage e \<and>
            docker e (Run n (envVars opts) (resourceArgs (o_memory opts) (o_cpus opts))) \<noteq> None)) \<and>
      ((\<exists>cid. fst (spawn e n t opts s) = Inr (n, cid)) \<longrightarrow>
         statusOf (snd (spawn e n t opts s)) n = Some ''running'') \<and>
      existsDir (snd (spawn e n t opts s)) n \<and>
      (\<forall>e2 t2 opts2.
         spawn e2 n t2 opts2 (snd (spawn e n t opts s)) =
           (Inl AlreadyExists, snd (spawn e n t opts s))))"
proof -
  have valid: "\<And>x. validateName x \<noteq> None \<longleftrightarrow> \<not> spec_name_ok x"
    using validateName_spec by simp
  have A: "(\<exists>err. fst (spawn e n t opts s) = Inl err \<and> InvalidName err) \<longleftrightarrow> \<not> spec_name_ok n"
    using spawn_invalid_iff valid by simp
  have B: "(\<exists>err. fst (rename e old n s) = Inl err \<and> InvalidName err) \<longleftrightarrow> \<not> spec_name_ok n"
    using rename_invalid_iff valid by simp
  have C: "(\<exists>err. fst (clone e src n copts s) = Inl err \<and> InvalidName err) \<longleftrightarrow> \<not> spec_name_ok n"
    using clone_invalid_iff valid by simp
  have D: "spec_name_ok n \<and> existsDir s n \<longrightarrow> spawn e n t opts s = (Inl AlreadyExists, s)"
    using validateName_spec [of n] by (auto simp: spawn_def)
  have E: "spec_name_ok n \<and> \<not> existsDir s n \<longrightarrow>
      ((\<exists>cid. fst (spawn e n t opts s) = Inr (n, cid)) \<longleftrightarrow>
         ensureImage e \<and>
         docker e (Run n (envVars opts) (resourceArgs (o_memory opts) (o_cpus opts))) \<noteq> None) \<and>
      (fst (spawn e n t opts s) = Inl DockerError \<longleftrightarrow>
         \<not> (ensureImage e \<and>
            docker e (Run n (envVars opts) (resourceArgs (o_memory opts) (o_cpus opts))) \<noteq> None)) \<and>
      ((\<exists>cid. fst (spawn e n t opts s) = Inr (n, cid)) \<longrightarrow>
         statusOf (snd (spawn e n t opts s)) n = Some ''running'') \<and>
      existsDir (snd (spawn e n t opts s)) n \<and>
      (\<forall>e2 t2 opts2.
         spawn e2 n t2 opts2 (snd (spawn e n t opts s)) =
           (Inl AlreadyExists, snd (spawn e n t opts s)))"
  proof (intro impI)
    assume h: "spec_name_ok n \<and> \<not> existsDir s n"
    then have v: "validateName n = None" using validateName_spec by simp
    note S = spawn_valid_shape [OF v, of e t opts s]
    have ex: "existsDir (snd (spawn e n t opts s)) n" using S h by blast
    have again: "\<forall>e2 t2 opts2.
         spawn e2 n t2 opts2 (snd (spawn e n t opts s)) =
           (Inl AlreadyExists, snd (spawn e n t opts s))"
      using ex v by (simp add: spawn_def)
    show "((\<exists>cid. fst (spawn e n t opts s) = Inr (n, cid)) \<longleftrightarrow>
         ensureImage e \<and>
         docker e (Run n (envVars opts) (resourceArgs (o_memory opts) (o_cpus opts))) \<noteq> None) \<and>
      (fst (spawn e n t opts s) = Inl DockerError \<longleftrightarrow>
         \<not> (ensureImage e \<and>
            docker e (Run n (envVars opts) (resourceArgs (o_memory opts) (o_cpus opts))) \<noteq> None)) \<and>
      ((\<exists>cid. fst (spawn e n t opts s) = Inr (n, cid)) \<longrightarrow>
         statusOf (snd (spawn e n t opts s)) n = Some ''running'') \<and>
      existsDir (snd (spawn e n t opts s)) n \<and>
      (\<forall>e2 t2 opts2.
         spawn e2 n t2 opts2 (snd (spawn e n t opts s)) =
           (Inl AlreadyExists, snd (spawn e n t opts s)))"
      using S h ex again by auto
  qed
  show ?thesis using A B C D E by (intro conjI)
qed

theorem create_rules_witness:
  "spec_name_ok ''a'' \<and> \<not> existsDir empty_hive ''a'' \<and>
   fst (spawn env_up ''a'' ''task a'' no_options empty_hive) = Inr (''a'', ''c0ffee'') \<and>
   spawn env_up ''a'' ''again'' no_options (snd (spawn env_up ''a'' ''task a'' no_options empty_hive)) =
     (Inl AlreadyExists, snd (spawn env_up ''a'' ''task a'' no_options empty_hive)) \<and>
   \<not> spec_name_ok ''-x'' \<and>
   (\<exists>err. fst (spawn env_up ''-x'' ''task'' no_options empty_hive) = Inl err \<and> InvalidName err)"
proof -
  have v: "spec_name_ok ''a''" by code_simp
  have f: "\<not> existsDir empty_hive ''a''" by code_simp
  have r: "fst (spawn env_up ''a'' ''task a'' no_options empty_hive) = Inr (''a'', ''c0ffee'')"
    by code_simp
  have i: "\<not> spec_name_ok ''-x''" by code_simp
  note T = create_rules [of env_up "''a''" "''task a''" no_options empty_hive]
  from T v f
  have a: "spawn env_up ''a'' ''again'' no_options (snd (spawn env_up ''a'' ''task a'' no_options empty_hive)) =
     (Inl AlreadyExists, snd (spawn env_up ''a'' ''task a'' no_options empty_hive))" by blast
  from create_rules [of env_up "''-x''" "''task''" no_options empty_hive] i
  have x: "\<exists>err. fst (spawn env_up ''-x'' ''task'' no_options empty_hive) = Inl err \<and> InvalidName err"
    by blast
  show ?thesis using v f r a i x by (intro conjI)
qed

theorem create_docker_down_counterexample:
  "spec_name_ok ''a'' \<and> \<not> existsDir empty_hive ''a'' \<and>
   fst (spawn env_down ''a'' ''task a'' no_options empty_hive) = Inl DockerError \<and>
   \<not> InvalidName DockerError \<and> DockerError \<noteq> AlreadyExists"
  by code_simp

subsection \<open>Clearing an inbox\<close>

lemma length_insert_sorted: "length (insert_sorted x xs) = Suc (length xs)"
  by (induction xs) auto

lemma length_js_sort: "length (js_sort xs) = length xs"
  by (induction xs) (auto simp: length_insert_sorted)

lemma jsonFiles_cleared: "jsonFiles (filter (\<lambda>p. \<not> endsWith ''.json'' (fst p)) files) = []"
  by (induction files) (auto simp: jsonFiles_def)

lemma filter_cleared:
  "filter (\<lambda>p. \<not> endsWith ''.json'' (fst p)) (filter (\<lambda>p. \<not> endsWith ''.json'' (fst p)) files) =
   filter (\<lambda>p. \<not> endsWith ''.json'' (fst p)) files"
  by simp

lemma clearInbox_fixpoint:
  assumes "existsDir s n"
  shows "clearInbox n (snd (clearInbox n s)) = (Inr 0, snd (clearInbox n s))"
proof (cases "inboxDir s n")
  case None
  then show ?thesis using assms by (simp add: clearInbox_def)
next
  case (Some files)
  let ?F = "filter (\<lambda>p. \<not> endsWith ''.json'' (fst p)) files"
  let ?s' = "s\<lparr>network := AList.update n ?F (network s)\<rparr>"
  have s': "snd (clearInbox n s) = ?s'" using assms Some by (simp add: clearInbox_def)
  have ex: "existsDir ?s' n" using assms by (simp add: existsDir_def minionDir_def)
  have ib: "inboxDir ?s' n = Some ?F" by (simp add: inboxDir_def update_conv')
  have "AList.update n ?F (network ?s') = network ?s'"
    by (rule update_triv) (simp add: update_conv')
  then have same: "?s'\<lparr>network := AList.update n ?F (network ?s')\<rparr> = ?s'" by simp
  show ?thesis unfolding s'
    using ex ib same by (simp add: clearInbox_def jsonFiles_cleared)
qed

text \<open>
  C8. For an existing recipient \<^verbatim>\<open>clearInbox\<close> returns the number of messages
  \<^verbatim>\<open>inbox\<close> would have returned, after it \<^verbatim>\<open>inbox\<close> returns the empty list, and a
  further \<^verbatim>\<open>clearInbox\<close> returns 0 and changes nothing, so that every later call
  without a send in between returns 0 as well.
\<close>

theorem clearInbox_counts_and_is_idempotent:
  assumes "existsDir s n"
  shows "(\<exists>msgs. inbox n s = Inr msgs \<and> fst (clearInbox n s) = Inr (length msgs)) \<and>
         inbox n (snd (clearInbox n s)) = Inr [] \<and>
         clearInbox n (snd (clearInbox n s)) = (Inr 0, snd (clearInbox n s)) \<and>
         (\<forall>k. fst (clearInbox n (((\<lambda>x. snd (clearInbox n x)) ^^ Suc k) s)) = Inr 0)"
proof (intro conjI)
  show "\<exists>msgs. inbox n s = Inr msgs \<and> fst (clearInbox n s) = Inr (length msgs)"
    using assms by (auto simp: inbox_def clearInbox_def length_js_sort split: option.splits)
  show "inbox n (snd (clearInbox n s)) = Inr []"
    using assms
    by (auto simp: inbox_def clearInbox_def existsDir_def minionDir_def inboxDir_def
        update_conv' jsonFiles_cleared split: option.splits)
  show fp: "clearInbox n (snd (clearInbox n s)) = (Inr 0, snd (clearInbox n s))"
    using assms by (rule clearInbox_fixpoint)
  have iter: "\<And>k. ((\<lambda>x. snd (clearInbox n x)) ^^ Suc k) s = snd (clearInbox n s)"
  proof -
    fix k show "((\<lambda>x. snd (clearInbox n x)) ^^ Suc k) s = snd (clearInbox n s)"
      by (induction k) (simp_all add: fp)
  qed
  show "\<forall>k. fst (clearInbox n (((\<lambda>x. snd (clearInbox n x)) ^^ Suc k) s)) = Inr 0"
    using iter fp by simp
qed

theorem clearInbox_counts_and_is_idempotent_witness:
  "existsDir hive_mail ''alice'' \<and>
   map msg_body (projr (inbox ''alice'' hive_mail)) = [''second'', ''first''] \<and>
   fst (clearInbox ''alice'' hive_mail) = Inr 2 \<and>
   inbox ''alice'' (snd (clearInbox ''alice'' hive_mail)) = Inr [] \<and>
   fst (clearInbox ''alice'' (snd (clearInbox ''alice'' hive_mail))) = Inr 0"
proof -
  have e: "existsDir hive_mail ''alice''" by code_simp
  have b: "map msg_body (projr (inbox ''alice'' hive_mail)) = [''second'', ''first'']" by code_simp
  have c: "fst (clearInbox ''alice'' hive_mail) = Inr 2" by code_simp
  note T = clearInbox_counts_and_is_idempotent [OF e]
  from T have i: "inbox ''alice'' (snd (clearInbox ''alice'' hive_mail)) = Inr []" by blast
  from T have "clearInbox ''alice'' (snd (clearInbox ''alice'' hive_mail)) =
     (Inr 0, snd (clearInbox ''alice'' hive_mail))" by blast
  then have z: "fst (clearInbox ''alice'' (snd (clearInbox ''alice'' hive_mail))) = Inr 0" by simp
  show ?thesis using e b c i z by (intro conjI)
qed


subsection \<open>The metadata invariant\<close>

lemma every_metaD:
  "every_meta P s \<Longrightarrow> minionDir s n = Some d \<Longrightarrow> meta_json d = Some m \<Longrightarrow> P m"
  by (auto simp: every_meta_def minionDir_def list_all_iff dest!: map_of_SomeD)

lemma list_all_update:
  "list_all Q al \<Longrightarrow> Q (k, v) \<Longrightarrow> list_all Q (AList.update k v al)"
  by (induction al) auto

lemma list_all_delete: "list_all Q al \<Longrightarrow> list_all Q (AList.delete k al)"
  by (induction al) auto

lemma every_meta_writeDir:
  "every_meta P s \<Longrightarrow> (case meta_json d of None \<Rightarrow> True | Some m \<Rightarrow> P m) \<Longrightarrow>
   every_meta P (writeDir n d s)"
  by (simp add: every_meta_def writeDir_def list_all_update)

lemma every_meta_writeMeta: "every_meta P s \<Longrightarrow> P m \<Longrightarrow> every_meta P (writeMeta n m s)"
  by (auto simp: writeMeta_def every_meta_writeDir split: option.splits)

lemma every_meta_network: "every_meta P (s\<lparr>network := x\<rparr>) = every_meta P s"
  by (simp add: every_meta_def)

lemma truthy_Some: "truthy x \<Longrightarrow> x \<noteq> None"
  by (cases x) (auto simp: truthy_def)

lemma inv_spawn: "every_meta (inv_meta r) s \<Longrightarrow> every_meta (inv_meta r) (snd (spawn e n t opts s))"
  by (auto simp: spawn_def Let_def newDir_def newMeta_def inv_meta_def handle_ok_def waiting_ok_def
      intro!: every_meta_writeMeta every_meta_writeDir split: option.splits)

lemma inv_spawnWaiting:
  "every_meta (inv_meta r) s \<Longrightarrow> every_meta (inv_meta r) (snd (spawnWaiting e n t dep opts s))"
  by (auto simp: spawnWaiting_def Let_def newDir_def newMeta_def inv_meta_def handle_ok_def
      waiting_ok_def intro!: every_meta_writeDir split: option.splits)

lemma inv_start: "every_meta (inv_meta r) s \<Longrightarrow> every_meta (inv_meta r) (snd (start e n opts s))"
  by (rule start_cases [of e n opts s])
     (auto simp: inv_meta_def handle_ok_def waiting_ok_def intro!: every_meta_writeMeta)

lemma inv_kill: "every_meta (inv_meta r) s \<Longrightarrow> every_meta (inv_meta r) (snd (kill e n s))"
  by (auto simp: kill_def Let_def inv_meta_def handle_ok_def waiting_ok_def
      intro!: every_meta_writeMeta split: option.splits)

lemma inv_pause: "every_meta (inv_meta r) s \<Longrightarrow> every_meta (inv_meta r) (snd (pause e n s))"
  by (auto simp: pause_def inv_meta_def handle_ok_def waiting_ok_def
      intro!: every_meta_writeMeta dest: truthy_Some split: option.splits)

lemma inv_resume: "every_meta (inv_meta r) s \<Longrightarrow> every_meta (inv_meta r) (snd (resume e n s))"
  by (auto simp: resume_def inv_meta_def handle_ok_def waiting_ok_def
      intro!: every_meta_writeMeta dest: truthy_Some split: option.splits)

lemma inv_restart: "every_meta (inv_meta r) s \<Longrightarrow> every_meta (inv_meta r) (snd (restart e n s))"
  by (auto simp: restart_def inv_meta_def handle_ok_def waiting_ok_def
      intro!: every_meta_writeMeta dest: truthy_Some split: option.splits)

lemma inv_retry:
  assumes "every_meta (inv_meta r) s"
  shows "every_meta (inv_meta r) (snd (retry e n opts s))"
proof (cases "minionDir s n")
  case None
  then show ?thesis using assms by (simp add: retry_def)
next
  case (Some d)
  show ?thesis
  proof (cases "meta_json d")
    case None
    then show ?thesis using assms Some by (auto simp: retry_def split: option.splits)
  next
    case (Some m)
    have old: "inv_meta r m" using every_metaD [OF assms \<open>minionDir s n = Some d\<close> Some] .
    have s1: "every_meta (inv_meta r) (writeDir n (d\<lparr>STATUS := None, output_log := None\<rparr>) s)"
      using assms old Some by (auto intro!: every_meta_writeDir)
    show ?thesis
      using assms Some \<open>minionDir s n = Some d\<close> s1
      by (auto simp: retry_def Let_def newMeta_def inv_meta_def handle_ok_def waiting_ok_def
          intro!: every_meta_writeMeta split: option.splits)
  qed
qed

lemma inv_clone:
  assumes "every_meta (inv_meta r) s"
  shows "every_meta (inv_meta r) (snd (clone e src n copts s))"
  using assms
  by (auto simp: clone_def Let_def newMeta_def newDir_def inv_meta_def handle_ok_def waiting_ok_def
      every_meta_network intro!: every_meta_writeDir split: option.splits)

lemma inv_rename:
  assumes "every_meta (inv_meta True) s"
  shows "every_meta (inv_meta True) (snd (rename e old n s))"
proof (cases "minionDir s old")
  case None
  then show ?thesis using assms by (auto simp: rename_def split: option.splits)
next
  case (Some d)
  show ?thesis
  proof (cases "meta_json d")
    case None
    then show ?thesis using assms Some by (auto simp: rename_def split: option.splits)
  next
    case (Some m)
    have old: "inv_meta True m" using every_metaD [OF assms \<open>minionDir s old = Some d\<close> Some] .
    let ?m1 = "m\<lparr>name := n, renamedFrom := Some old, renamedAt := Some (now e), containerId := None\<rparr>"
    have new: "inv_meta True ?m1"
      using old by (auto simp: inv_meta_def handle_ok_def waiting_ok_def)
    have moved: "every_meta (inv_meta True)
        (s\<lparr>minions := AList.update n (d\<lparr>meta_json := Some ?m1\<rparr>) (AList.delete old (minions s))\<rparr>)"
      using assms new by (simp add: every_meta_def list_all_update list_all_delete)
    show ?thesis
      using assms Some \<open>minionDir s old = Some d\<close> moved
      by (auto simp: rename_def Let_def every_meta_network split: option.splits list.splits)
  qed
qed

lemma inv_exec:
  "every_meta (inv_meta r) s \<Longrightarrow> \<not> is_rename a \<Longrightarrow> every_meta (inv_meta r) (exec e a s)"
  by (cases a)
     (simp_all add: inv_spawn inv_spawnWaiting inv_start inv_pause inv_resume inv_restart inv_kill
        inv_retry inv_clone)

lemma inv_exec_renamed:
  "every_meta (inv_meta True) s \<Longrightarrow> every_meta (inv_meta True) (exec e a s)"
  by (cases "is_rename a") (auto simp: inv_exec inv_rename elim: is_rename.elims)

lemma inv_run:
  "every_meta (inv_meta r) s \<Longrightarrow> \<forall>x\<in>set ops. \<not> is_rename (snd x) \<Longrightarrow>
   every_meta (inv_meta r) (run ops s)"
  by (induction ops arbitrary: s) (auto simp: inv_exec)

lemma inv_run_renamed:
  "every_meta (inv_meta True) s \<Longrightarrow> every_meta (inv_meta True) (run ops s)"
  by (induction ops arbitrary: s) (auto simp: inv_exec_renamed)

text \<open>
  C10 (amended). Every lifecycle operation other than \<^verbatim>\<open>rename\<close> (\<^verbatim>\<open>spawn\<close>,
  \<^verbatim>\<open>spawnWaiting\<close>, \<^verbatim>\<open>start\<close>, \<^verbatim>\<open>pause\<close>, \<^verbatim>\<open>resume\<close>, \<^verbatim>\<open>restart\<close>, \<^verbatim>\<open>kill\<close>,
  \<^verbatim>\<open>retry\<close>, \<^verbatim>\<open>clone\<close>) preserves the invariant, whether it returns or throws, and so
  does every run of them from the empty registry. \<^verbatim>\<open>rename\<close> clears the container id
  and keeps the status: with it, every operation preserves, and every reachable registry
  satisfies, the invariant in which a \<^verbatim>\<open>running\<close> or \<^verbatim>\<open>paused\<close> worker has a container
  id unless it has been renamed; the \<^verbatim>\<open>waiting\<close> clause holds throughout.
\<close>

theorem lifecycle_invariant:
  "(invariant s \<and> \<not> is_rename a \<longrightarrow> invariant (exec e a s)) \<and>
   (invariant_renamed s \<longrightarrow> invariant_renamed (exec e a s)) \<and>
   ((\<forall>x\<in>set ops. \<not> is_rename (snd x)) \<longrightarrow> invariant (run ops empty_hive)) \<and>
   invariant_renamed (run ops empty_hive) \<and>
   every_meta waiting_ok (run ops empty_hive)"
proof -
  have e0: "\<And>r. every_meta (inv_meta r) empty_hive"
    by (simp add: every_meta_def empty_hive_def)
  have w: "every_meta waiting_ok (run ops empty_hive)"
    using inv_run_renamed [OF e0, of ops]
    by (simp add: every_meta_def inv_meta_def list_all_iff split: option.splits)
  have "inv_meta False = (\<lambda>m. handle_ok m \<and> waiting_ok m)"
    by (rule ext) (auto simp: inv_meta_def)
  then have strict: "\<And>x. invariant x = every_meta (inv_meta False) x"
    by (simp add: invariant_def)
  have "inv_meta True = (\<lambda>m. waiting_ok m \<and> (handle_ok m \<or> renamedFrom m \<noteq> None))"
    by (rule ext) (auto simp: inv_meta_def)
  then have excused: "\<And>x. invariant_renamed x = every_meta (inv_meta True) x"
    by (simp add: invariant_renamed_def)
  show ?thesis
    unfolding strict excused
    using inv_exec [of False s a e] inv_exec_renamed [of s e a] inv_run [OF e0, of ops False]
      inv_run_renamed [OF e0, of ops] w
    by blast
qed

theorem lifecycle_invariant_witness:
  "list_all (\<lambda>x. \<not> is_rename (snd x)) busy_run \<and> invariant (run busy_run empty_hive) \<and>
   statusOf (run busy_run empty_hive) ''b'' = Some ''running'' \<and>
   handleOf (run busy_run empty_hive) ''b'' = Some ''c0ffee'' \<and>
   invariant_renamed (run spawn_then_rename empty_hive)"
proof -
  have n: "\<forall>x\<in>set busy_run. \<not> is_rename (snd x)" by code_simp
  have b: "statusOf (run busy_run empty_hive) ''b'' = Some ''running''" by code_simp
  have h: "handleOf (run busy_run empty_hive) ''b'' = Some ''c0ffee''" by code_simp
  from lifecycle_invariant [of empty_hive "Kill ''a''" env_up busy_run] n
  have i: "invariant (run busy_run empty_hive)" by blast
  from lifecycle_invariant [of empty_hive "Kill ''a''" env_up spawn_then_rename]
  have r: "invariant_renamed (run spawn_then_rename empty_hive)" by blast
  have l: "list_all (\<lambda>x. \<not> is_rename (snd x)) busy_run" using n by (simp add: list_all_iff)
  show ?thesis using l i b h r by (intro conjI)
qed

theorem rename_breaks_invariant_counterexample:
  "invariant (run [(env_up, Spawn ''a'' ''task a'' no_options)] empty_hive) \<and>
   fst (rename env_exited ''a'' ''b'' (run [(env_up, Spawn ''a'' ''task a'' no_options)] empty_hive)) =
     Inr (''a'', ''b'') \<and>
   statusOf (run spawn_then_rename empty_hive) ''b'' = Some ''running'' \<and>
   handleOf (run spawn_then_rename empty_hive) ''b'' = None \<and>
   \<not> invariant (run spawn_then_rename empty_hive)"
  by code_simp


subsection \<open>Waiting\<close>

lemma check_time_entry: "check_time w p k = entry_time w p k + dur w k"
  by (cases k) simp_all

lemma status_op_present:
  assumes "present_at w n k"
  shows "\<exists>st. status_op (env_at w k) n (fs_at w k) = Inr st \<and>
              st_taskStatus st = signal_at w n k \<and> st_output st = output_at w n k"
  using assms
  by (auto simp: present_at_def status_op_def signal_at_def output_at_def split: option.splits)

lemma wait_loop_step:
  assumes "present_at w n k" and "outcome_at w n T p k = None"
  shows "wait_loop w n T p k (entry_time w p k) =
         wait_loop w n T p (Suc k) (entry_time w p (Suc k))"
proof -
  from status_op_present [OF assms(1)] obtain st where
    st: "status_op (env_at w k) n (fs_at w k) = Inr st" "st_taskStatus st = signal_at w n k"
    by blast
  have c: "signal_at w n k \<noteq> Some ''COMPLETE''" and f: "signal_at w n k \<noteq> Some ''FAILED''"
    and t: "\<not> entry_time w p k + dur w k - startTime w > T"
    using assms(2) by (auto simp: outcome_at_def check_time_entry split: if_splits)
  show ?thesis
    by (subst wait_loop.simps) (simp add: st c f t check_time_entry)
qed

lemma wait_loop_done:
  assumes "present_at w n k" and "outcome_at w n T p k = Some res"
  shows "wait_loop w n T p k (entry_time w p k) = Some (Inr (res, output_at w n k))"
proof -
  from status_op_present [OF assms(1)] obtain st where
    st: "status_op (env_at w k) n (fs_at w k) = Inr st" "st_taskStatus st = signal_at w n k"
      "st_output st = output_at w n k"
    by blast
  show ?thesis
    using assms(2)
    by (subst wait_loop.simps) (auto simp: st outcome_at_def check_time_entry split: if_splits)
qed

lemma wait_loop_throw:
  assumes "status_op (env_at w k) n (fs_at w k) = Inl err"
  shows "wait_loop w n T p k t = Some (Inl err)"
  by (subst wait_loop.simps) (simp add: assms)

lemma wait_loop_run:
  assumes "\<forall>j<k. present_at w n j" and "\<forall>j<k. outcome_at w n T p j = None"
  shows "wait_loop w n T p 0 (entry_time w p 0) = wait_loop w n T p k (entry_time w p k)"
  using assms
proof (induction k)
  case 0
  show ?case by simp
next
  case (Suc k)
  then have "wait_loop w n T p 0 (entry_time w p 0) = wait_loop w n T p k (entry_time w p k)"
    by simp
  also have "\<dots> = wait_loop w n T p (Suc k) (entry_time w p (Suc k))"
    using wait_loop_step [of w n k T p] Suc.prems by simp
  finally show ?case .
qed

lemma timerDelay_pos: "0 < timerDelay p"
  by (simp add: timerDelay_def)

lemma check_time_lower:
  assumes "\<forall>k. 0 \<le> dur w k" and "\<forall>k. 0 \<le> late w k"
  shows "startTime w + int k * timerDelay p \<le> check_time w p k"
proof (induction k)
  case 0
  show ?case using assms(1) by (simp add: order_trans [OF _ add_increasing2])
next
  case (Suc k)
  have "0 \<le> late w k" "0 \<le> dur w (Suc k)" using assms by simp_all
  then show ?case using Suc by (simp add: algebra_simps)
qed

lemma late_poll_decides:
  assumes "\<forall>k. 0 \<le> dur w k" and "\<forall>k. 0 \<le> late w k" and "T < int k * timerDelay p"
  shows "outcome_at w n T p k \<noteq> None"
  using check_time_lower [OF assms(1,2), of k p] assms(3)
  by (simp add: outcome_at_def)

lemma js_or_num_pos: "0 < v \<Longrightarrow> js_or_num (Some v) d = v"
  by (simp add: js_or_num_def)

text \<open>
  C9 (amended). Let the caller pass a positive timeout \<open>T\<close> and a positive poll interval
  \<open>p\<close>, let the worker exist with its metadata at every poll, and let the clock not run
  backwards: no poll takes negative time and no timer fires before its delay. Then
  \<^verbatim>\<open>wait\<close> returns, at the first poll \<open>k\<close> that decides, exactly one of three results:
  \<^verbatim>\<open>COMPLETE\<close> exactly when that poll reads the terminal signal \<^verbatim>\<open>COMPLETE\<close>,
  \<^verbatim>\<open>FAILED\<close> exactly when it reads \<^verbatim>\<open>FAILED\<close>, and \<^verbatim>\<open>TIMEOUT\<close> exactly when it reads
  neither and more than \<open>T\<close> milliseconds have passed since the call. It does not run on
  past the timeout: the \<open>k\<close> timers it has awaited fit into \<open>T\<close> plus one timer delay,
  and after the first poll the deciding poll reads the clock no later than \<open>T\<close> plus one
  timer (its delay and its lateness) plus the time of that poll's own \<^verbatim>\<open>status\<close> call
  after the call of \<^verbatim>\<open>wait\<close>.
\<close>

theorem wait_returns_one_of_three:
  assumes "timeoutMs opts = Some T" and "0 < T"
    and "pollMs opts = Some p" and "0 < p"
    and "\<forall>k. present_at w n k"
    and "\<forall>k. 0 \<le> dur w k" and "\<forall>k. 0 \<le> late w k"
  shows "\<exists>k res.
           (\<forall>j<k. outcome_at w n T p j = None) \<and>
           wait w n opts = Some (Inr (res, output_at w n k)) \<and>
           (res = ''COMPLETE'' \<or> res = ''FAILED'' \<or> res = ''TIMEOUT'') \<and>
           (res = ''COMPLETE'' \<longleftrightarrow> signal_at w n k = Some ''COMPLETE'') \<and>
           (res = ''FAILED'' \<longleftrightarrow> signal_at w n k = Some ''FAILED'') \<and>
           (res = ''TIMEOUT'' \<longleftrightarrow>
              signal_at w n k \<noteq> Some ''COMPLETE'' \<and> signal_at w n k \<noteq> Some ''FAILED'' \<and>
              T < check_time w p k - startTime w) \<and>
           int k * timerDelay p \<le> T + timerDelay p \<and>
           (0 < k \<longrightarrow>
              check_time w p k - startTime w \<le>
                T + timerDelay p + late w (k - 1) + dur w k)"
proof -
  let ?d = "timerDelay p"
  let ?D = "\<lambda>k. outcome_at w n T p k \<noteq> None"
  have d: "0 < ?d" by (rule timerDelay_pos)
  have big: "T < int (nat (T div ?d) + 1) * ?d"
  proof -
    define q where "q = T div ?d"
    define r where "r = T mod ?d"
    have eq: "q * ?d + r = T" unfolding q_def r_def by (rule div_mult_mod_eq)
    have r: "r < ?d" unfolding r_def using d by simp
    have q: "0 \<le> q" unfolding q_def using assms(2) d by (simp add: pos_imp_zdiv_nonneg_iff)
    have "int (nat q + 1) * ?d = q * ?d + ?d" using q by (simp add: algebra_simps)
    then show ?thesis unfolding q_def [symmetric] using eq r by linarith
  qed
  have ex: "?D (nat (T div ?d) + 1)"
    using late_poll_decides [OF assms(6,7) big] .
  define k where "k = (LEAST k. ?D k)"
  have dk: "?D k" unfolding k_def using ex by (rule LeastI)
  have before: "\<forall>j<k. outcome_at w n T p j = None"
    unfolding k_def using not_less_Least by blast
  from dk obtain res where res: "outcome_at w n T p k = Some res" by auto
  have three: "res = ''COMPLETE'' \<or> res = ''FAILED'' \<or> res = ''TIMEOUT''"
    using res by (auto simp: outcome_at_def split: if_splits)
  have rc: "res = ''COMPLETE'' \<longleftrightarrow> signal_at w n k = Some ''COMPLETE''"
    using res by (auto simp: outcome_at_def split: if_splits)
  have rf: "res = ''FAILED'' \<longleftrightarrow> signal_at w n k = Some ''FAILED''"
    using res by (auto simp: outcome_at_def split: if_splits)
  have rt: "res = ''TIMEOUT'' \<longleftrightarrow>
              signal_at w n k \<noteq> Some ''COMPLETE'' \<and> signal_at w n k \<noteq> Some ''FAILED'' \<and>
              T < check_time w p k - startTime w"
    using res by (auto simp: outcome_at_def split: if_splits)
  have Tv: "js_or_num (timeoutMs opts) 300000 = T"
    using assms(1,2) by (simp add: js_or_num_pos)
  have pv: "js_or_num (pollMs opts) 2000 = p"
    using assms(3,4) by (simp add: js_or_num_pos)
  have "wait w n opts = wait_loop w n T p 0 (entry_time w p 0)"
    by (simp add: wait_def Tv pv)
  also have "\<dots> = wait_loop w n T p k (entry_time w p k)"
    using wait_loop_run [OF _ before] assms(5) by simp
  also have "\<dots> = Some (Inr (res, output_at w n k))"
    using wait_loop_done [OF _ res] assms(5) by simp
  finally have ret: "wait w n opts = Some (Inr (res, output_at w n k))" .
  have bound: "int k * ?d \<le> T + ?d"
  proof (cases k)
    case 0
    then show ?thesis using assms(2) d by simp
  next
    case (Suc i)
    then have "outcome_at w n T p i = None" using before by simp
    then have "\<not> T < int i * ?d" using late_poll_decides [OF assms(6,7), of T i p n] by blast
    then show ?thesis using Suc by (simp add: algebra_simps)
  qed
  have time: "0 < k \<longrightarrow>
      check_time w p k - startTime w \<le> T + ?d + late w (k - 1) + dur w k"
  proof
    assume "0 < k"
    then obtain i where i: "k = Suc i" by (cases k) auto
    then have "outcome_at w n T p i = None" using before by simp
    then have "\<not> check_time w p i - startTime w > T"
      by (auto simp: outcome_at_def split: if_splits)
    then show "check_time w p k - startTime w \<le> T + ?d + late w (k - 1) + dur w k"
      unfolding i by simp
  qed
  from before ret three rc rf rt bound time show ?thesis
    by (intro exI [of _ k] exI [of _ res] conjI)
qed

theorem wait_returns_one_of_three_witness:
  "timeoutMs wait_50_10 = Some 50 \<and> pollMs wait_50_10 = Some 10 \<and>
   present_at world_done_at_2 ''a'' 0 \<and> present_at world_done_at_2 ''a'' 2 \<and>
   wait world_done_at_2 ''a'' wait_50_10 = Some (Inr (''COMPLETE'', None)) \<and>
   wait world_never_done ''a'' wait_50_10 = Some (Inr (''TIMEOUT'', None)) \<and>
   (\<exists>k res. wait world_done_at_2 ''a'' wait_50_10 =
              Some (Inr (res, output_at world_done_at_2 ''a'' k)) \<and>
            (res = ''COMPLETE'' \<longleftrightarrow> signal_at world_done_at_2 ''a'' k = Some ''COMPLETE'') \<and>
            int k * timerDelay 10 \<le> 50 + timerDelay 10)"
proof -
  have tv: "timeoutMs wait_50_10 = Some 50" by (simp add: wait_50_10_def)
  have pv: "pollMs wait_50_10 = Some 10" by (simp add: wait_50_10_def)
  have d: "\<forall>k. 0 \<le> dur world_done_at_2 k" by (simp add: world_done_at_2_def)
  have l: "\<forall>k. 0 \<le> late world_done_at_2 k" by (simp add: world_done_at_2_def)
  have a1: "case minionDir hive_a ''a'' of None \<Rightarrow> False | Some d \<Rightarrow> meta_json d \<noteq> None"
    by code_simp
  have a2: "case minionDir (echoStatus ''COMPLETE'' ''a'' hive_a) ''a'' of
              None \<Rightarrow> False | Some d \<Rightarrow> meta_json d \<noteq> None"
    by code_simp
  have pr: "\<forall>k. present_at world_done_at_2 ''a'' k"
    using a1 a2 by (simp add: present_at_def world_done_at_2_def)
  have wv: "wait world_done_at_2 ''a'' wait_50_10 =
          wait_loop world_done_at_2 ''a'' 50 10 0 (entry_time world_done_at_2 10 0)"
    by (simp add: wait_def tv pv js_or_num_pos)
  have "list_all (\<lambda>j. outcome_at world_done_at_2 ''a'' 50 10 j = None) [0..<2]" by code_simp
  then have b2: "\<forall>j<2. outcome_at world_done_at_2 ''a'' 50 10 j = None"
    by (simp add: list_all_iff)
  have o2: "outcome_at world_done_at_2 ''a'' 50 10 2 = Some ''COMPLETE''" by code_simp
  have u2: "output_at world_done_at_2 ''a'' 2 = None" by code_simp
  note wv
  also have "wait_loop world_done_at_2 ''a'' 50 10 0 (entry_time world_done_at_2 10 0) =
      wait_loop world_done_at_2 ''a'' 50 10 2 (entry_time world_done_at_2 10 2)"
    using wait_loop_run [OF _ b2] pr by simp
  also have "\<dots> = Some (Inr (''COMPLETE'', None))"
    using wait_loop_done [OF _ o2] pr u2 by simp
  finally have c: "wait world_done_at_2 ''a'' wait_50_10 = Some (Inr (''COMPLETE'', None))" .
  have a3: "\<forall>k. present_at world_never_done ''a'' k"
    using a1 by (simp add: present_at_def world_never_done_def)
  have "list_all (\<lambda>j. outcome_at world_never_done ''a'' 50 10 j = None) [0..<5]" by code_simp
  then have b5: "\<forall>j<5. outcome_at world_never_done ''a'' 50 10 j = None"
    by (simp add: list_all_iff)
  have o5: "outcome_at world_never_done ''a'' 50 10 5 = Some ''TIMEOUT''" by code_simp
  have u5: "output_at world_never_done ''a'' 5 = None" by code_simp
  have "wait world_never_done ''a'' wait_50_10 =
          wait_loop world_never_done ''a'' 50 10 0 (entry_time world_never_done 10 0)"
    by (simp add: wait_def tv pv js_or_num_pos)
  also have "\<dots> = wait_loop world_never_done ''a'' 50 10 5 (entry_time world_never_done 10 5)"
    using wait_loop_run [OF _ b5] a3 by simp
  also have "\<dots> = Some (Inr (''TIMEOUT'', None))"
    using wait_loop_done [OF _ o5] a3 u5 by simp
  finally have o: "wait world_never_done ''a'' wait_50_10 = Some (Inr (''TIMEOUT'', None))" .
  have t0: "(0::int) < 50" and p0: "(0::int) < 10" by simp_all
  from wait_returns_one_of_three [OF tv t0 pv p0 pr d l]
  have e: "\<exists>k res. wait world_done_at_2 ''a'' wait_50_10 =
              Some (Inr (res, output_at world_done_at_2 ''a'' k)) \<and>
            (res = ''COMPLETE'' \<longleftrightarrow> signal_at world_done_at_2 ''a'' k = Some ''COMPLETE'') \<and>
            int k * timerDelay 10 \<le> 50 + timerDelay 10"
    by blast
  show ?thesis using tv pv pr c o e by (intro conjI) simp_all
qed

text \<open>
  The claim as it stands asks for one of the three results for every worker and every
  clock. A worker removed while \<^verbatim>\<open>wait\<close> polls makes \<^verbatim>\<open>status\<close> throw, and \<^verbatim>\<open>wait\<close>
  with it: a fourth outcome. A wall clock set back by 200 ms after the first poll makes a
  wait with a timeout of 50 ms and a poll interval of 10 ms poll 23 more times before it
  reports \<^verbatim>\<open>TIMEOUT\<close>: it has then awaited 23 timers of 10 ms.
\<close>

theorem wait_throws_or_overruns_counterexample:
  "timeoutMs wait_50_10 = Some 50 \<and> pollMs wait_50_10 = Some 10 \<and>
   present_at world_removed ''a'' 0 \<and>
   wait world_removed ''a'' wait_50_10 = Some (Inl NotFound) \<and>
   list_all (present_at world_clock_back ''a'') [0..<24] \<and>
   list_all (\<lambda>j. outcome_at world_clock_back ''a'' 50 10 j = None) [0..<23] \<and>
   wait world_clock_back ''a'' wait_50_10 = Some (Inr (''TIMEOUT'', None)) \<and>
   50 + timerDelay 10 < 23 * timerDelay 10"
proof -
  have tv: "timeoutMs wait_50_10 = Some 50" by (simp add: wait_50_10_def)
  have pv: "pollMs wait_50_10 = Some 10" by (simp add: wait_50_10_def)
  have a1: "case minionDir hive_a ''a'' of None \<Rightarrow> False | Some d \<Rightarrow> meta_json d \<noteq> None"
    by code_simp
  have p0: "present_at world_removed ''a'' 0"
    using a1 by (simp add: present_at_def world_removed_def)
  have o0: "outcome_at world_removed ''a'' 50 10 0 = None" by code_simp
  have s1: "status_op (env_at world_removed 1) ''a'' (fs_at world_removed 1) = Inl NotFound"
    by code_simp
  have "wait world_removed ''a'' wait_50_10 =
          wait_loop world_removed ''a'' 50 10 0 (entry_time world_removed 10 0)"
    by (simp add: wait_def tv pv js_or_num_pos)
  also have "\<dots> = wait_loop world_removed ''a'' 50 10 (Suc 0) (entry_time world_removed 10 (Suc 0))"
    using wait_loop_step [OF p0 o0] .
  also have "\<dots> = Some (Inl NotFound)"
    using s1 by (intro wait_loop_throw) simp
  finally have r: "wait world_removed ''a'' wait_50_10 = Some (Inl NotFound)" .
  have pb: "\<forall>k. present_at world_clock_back ''a'' k"
    using a1 by (simp add: present_at_def world_clock_back_def)
  then have pl: "list_all (present_at world_clock_back ''a'') [0..<24]"
    by (simp add: list_all_iff)
  have bl: "list_all (\<lambda>j. outcome_at world_clock_back ''a'' 50 10 j = None) [0..<23]"
    by code_simp
  then have b: "\<forall>j<23. outcome_at world_clock_back ''a'' 50 10 j = None"
    by (simp add: list_all_iff)
  have o: "outcome_at world_clock_back ''a'' 50 10 23 = Some ''TIMEOUT''" by code_simp
  have u: "output_at world_clock_back ''a'' 23 = None" by code_simp
  have "wait world_clock_back ''a'' wait_50_10 =
          wait_loop world_clock_back ''a'' 50 10 0 (entry_time world_clock_back 10 0)"
    by (simp add: wait_def tv pv js_or_num_pos)
  also have "\<dots> = wait_loop world_clock_back ''a'' 50 10 23 (entry_time world_clock_back 10 23)"
    using wait_loop_run [OF _ b] pb by simp
  also have "\<dots> = Some (Inr (''TIMEOUT'', None))"
    using wait_loop_done [OF _ o] pb u by simp
  finally have c: "wait world_clock_back ''a'' wait_50_10 = Some (Inr (''TIMEOUT'', None))" .
  have n: "50 + timerDelay 10 < 23 * timerDelay 10" by (simp add: timerDelay_def)
  show ?thesis using tv pv p0 r pl bl c n by (intro conjI)
qed


subsection \<open>Sending and reading\<close>

lemma update_fresh: "k \<notin> fst ` set al \<Longrightarrow> AList.update k v al = al @ [(k, v)]"
  by (induction al) auto

lemma endsWith_append: "endsWith suffix (x @ suffix)"
  by (simp add: endsWith_def)

lemma jsonFiles_empty_fresh:
  assumes "jsonFiles files = []" and "endsWith ''.json'' f"
  shows "f \<notin> fst ` set files"
proof
  assume "f \<in> fst ` set files"
  then have "f \<in> set (jsonFiles files)" using assms(2) by (auto simp: jsonFiles_def)
  then show False using assms(1) by simp
qed

text \<open>
  The first half of C7: when \<^verbatim>\<open>inbox(to)\<close> is empty, one \<^verbatim>\<open>send(from, to, body)\<close>
  makes it return exactly the message sent, with its \<^verbatim>\<open>from\<close>, \<^verbatim>\<open>to\<close> and \<^verbatim>\<open>body\<close>.
\<close>

theorem send_then_inbox:
  assumes "existsDir s sender" and "existsDir s recipient" and "inbox recipient s = Inr []"
  shows "fst (send e sender recipient body s) =
           Inr \<lparr>msg_id = message_id e sender, msg_from = sender, msg_to = recipient,
                msg_body = body, msg_timestamp = now e\<rparr> \<and>
         inbox recipient (snd (send e sender recipient body s)) =
           Inr [\<lparr>msg_id = message_id e sender, msg_from = sender, msg_to = recipient,
                 msg_body = body, msg_timestamp = now e\<rparr>]"
proof -
  let ?msg = "\<lparr>msg_id = message_id e sender, msg_from = sender, msg_to = recipient,
                msg_body = body, msg_timestamp = now e\<rparr>"
  let ?f = "message_id e sender @ ''.json''"
  let ?files = "case inboxDir s recipient of None \<Rightarrow> [] | Some fs \<Rightarrow> fs"
  have "length (js_sort (jsonFiles ?files)) = 0"
    using assms(2,3) by (auto simp: inbox_def jsonFiles_def split: option.splits)
  then have none: "jsonFiles ?files = []" by (simp add: length_js_sort)
  have fresh: "?f \<notin> fst ` set ?files"
    using jsonFiles_empty_fresh [OF none endsWith_append] .
  have upd: "AList.update ?f ?msg ?files = ?files @ [(?f, ?msg)]"
    using update_fresh [OF fresh] .
  have js: "jsonFiles (?files @ [(?f, ?msg)]) = [?f]"
    using none by (simp add: jsonFiles_def endsWith_append)
  have look: "map_of (?files @ [(?f, ?msg)]) ?f = Some ?msg"
    using fresh by (simp add: map_add_Some_iff map_of_eq_None_iff)
  let ?s' = "s\<lparr>network := AList.update recipient (?files @ [(?f, ?msg)]) (network s)\<rparr>"
  have snd: "send e sender recipient body s = (Inr ?msg, ?s')"
    using assms(1,2) upd by (simp add: send_def Let_def)
  have ex: "existsDir ?s' recipient" using assms(2) by (simp add: existsDir_def minionDir_def)
  have ib: "inboxDir ?s' recipient = Some (?files @ [(?f, ?msg)])"
    by (simp add: inboxDir_def update_conv')
  have "inbox recipient ?s' = Inr [?msg]"
    using ex ib js look by (simp add: inbox_def)
  then show ?thesis using snd by simp
qed

theorem send_then_inbox_witness:
  "existsDir hive_abc ''bob'' \<and> existsDir hive_abc ''alice'' \<and> inbox ''alice'' hive_abc = Inr [] \<and>
   map msg_body (projr (inbox ''alice'' (snd (send env_tick1 ''bob'' ''alice'' ''first'' hive_abc)))) =
     [''first'']"
proof -
  have b: "existsDir hive_abc ''bob''" by code_simp
  have a: "existsDir hive_abc ''alice''" by code_simp
  have i: "inbox ''alice'' hive_abc = Inr []" by code_simp
  from send_then_inbox [OF b a i, of env_tick1 "''first''"]
  have "map msg_body (projr (inbox ''alice'' (snd (send env_tick1 ''bob'' ''alice'' ''first'' hive_abc)))) =
     [''first'']" by simp
  then show ?thesis using b a i by (intro conjI)
qed

text \<open>
  C7, the second half, at a failing input. \<open>bob\<close> sends \<open>first\<close> when the timer reads
  999999000000, \<open>charlie\<close> sends \<open>second\<close> when it reads 1000000000000. The file names
  start with these numbers in decimal and are sorted as strings, and the character
  \<open>1\<close> sorts before \<open>9\<close>: \<^verbatim>\<open>inbox\<close> returns \<open>second\<close> before \<open>first\<close>.
\<close>

theorem inbox_order_at_digit_rollover:
  "hrtime env_tick1 < hrtime env_tick2 \<and>
   hive_mail = snd (send env_tick2 ''charlie'' ''alice'' ''second''
                 (snd (send env_tick1 ''bob'' ''alice'' ''first'' hive_abc))) \<and>
   inbox ''alice'' hive_abc = Inr [] \<and>
   map msg_id (projr (inbox ''alice'' hive_mail)) =
     [''1000000000000-charlie-p0q7'', ''999999000000-bob-k3x9''] \<and>
   map msg_from (projr (inbox ''alice'' hive_mail)) = [''charlie'', ''bob''] \<and>
   map msg_body (projr (inbox ''alice'' hive_mail)) = [''second'', ''first'']"
proof -
  have a: "hrtime env_tick1 < hrtime env_tick2" by code_simp
  have b: "inbox ''alice'' hive_abc = Inr []" by code_simp
  have c: "map msg_id (projr (inbox ''alice'' hive_mail)) =
     [''1000000000000-charlie-p0q7'', ''999999000000-bob-k3x9'']" by code_simp
  have d: "map msg_from (projr (inbox ''alice'' hive_mail)) = [''charlie'', ''bob'']" by code_simp
  have e: "map msg_body (projr (inbox ''alice'' hive_mail)) = [''second'', ''first'']" by code_simp
  show ?thesis using a b c d e by (simp add: hive_mail_def)
qed

subsection \<open>A dependency that is not a plain name\<close>

text \<open>
  \<^verbatim>\<open>spawnWaiting\<close> does not validate the dependency, and the scheduler resolves it as a
  path: a worker that depends on \<^verbatim>\<open>a/\<close> is created, and it is promoted when \<open>a\<close>
  has signalled \<^verbatim>\<open>COMPLETE\<close>, although no worker is named \<^verbatim>\<open>a/\<close>.
\<close>

theorem dependency_path_is_resolved:
  "fst (spawnWaiting env_up ''k'' ''task k'' ''a/'' no_options
         (echoStatus ''COMPLETE'' ''a'' hive_a)) = Inr (''k'', ''a/'') \<and>
   map_option dependsOn (metaOf hive_slash ''k'') = Some (Some ''a/'') \<and>
   locate ''a/'' = MinionDir ''a'' \<and>
   signal hive_slash ''a/'' = None \<and>
   signal hive_slash ''a'' = Some ''COMPLETE'' \<and>
   fst (checkAndStartDependents env_up world_up no_options hive_slash) =
     Inr [(''k'', ''a/'')] \<and>
   statusOf (snd (checkAndStartDependents env_up world_up no_options hive_slash)) ''k'' =
     Some ''running''"
  by code_simp

end
